theory Spec2Isabelle
  imports Complex_Main "HOL-Library.Multiset"
begin

section \<open>Numbers and vectors\<close>

text \<open>
  JavaScript numbers are modelled as the reals: rounding and overflow are left out, and
  every division of the source is either guarded so that its divisor is not zero (the
  lemmas below say so) or, for the division by a body's mass in \<open>update\<close>, written as
  an outcome of its own. \<open>Math.random()\<close> is a parameter \<open>rand\<close>: \<open>rand k\<close> is
  the value of the \<open>k\<close>-th call, and the functions that call it take and return the
  number of calls made so far.

  The operations of \<open>THREE.Vector3\<close> that the engine uses, as three.js defines them.
  The fields are \<open>vx\<close>, \<open>vy\<close>, \<open>vz\<close> for \<open>x\<close>, \<open>y\<close>, \<open>z\<close>.
  A vector is a value here: the engine never shares one vector object between two owners
  (\<open>copy\<close> and \<open>clone\<close> are used wherever a vector is stored).
\<close>

datatype Vector3 = Vector3 (vx: real) (vy: real) (vz: real)

definition subVectors :: "Vector3 \<Rightarrow> Vector3 \<Rightarrow> Vector3" where
  "subVectors a b = Vector3 (vx a - vx b) (vy a - vy b) (vz a - vz b)"

definition addV :: "Vector3 \<Rightarrow> Vector3 \<Rightarrow> Vector3" where
  "addV a b = Vector3 (vx a + vx b) (vy a + vy b) (vz a + vz b)"

definition multiplyScalar :: "Vector3 \<Rightarrow> real \<Rightarrow> Vector3" where
  "multiplyScalar v s = Vector3 (vx v * s) (vy v * s) (vz v * s)"

definition divideScalar :: "Vector3 \<Rightarrow> real \<Rightarrow> Vector3" where
  "divideScalar v s = multiplyScalar v (1 / s)"

definition lengthSq :: "Vector3 \<Rightarrow> real" where
  "lengthSq v = vx v * vx v + vy v * vy v + vz v * vz v"

definition vlength :: "Vector3 \<Rightarrow> real" where
  "vlength v = sqrt (vx v * vx v + vy v * vy v + vz v * vz v)"

text \<open>\<open>normalize()\<close> is \<open>this.divideScalar(this.length() || 1)\<close>.\<close>

definition normalizeDivisor :: "Vector3 \<Rightarrow> real" where
  "normalizeDivisor v = (if vlength v = 0 then 1 else vlength v)"

definition normalizeV :: "Vector3 \<Rightarrow> Vector3" where
  "normalizeV v = divideScalar v (normalizeDivisor v)"

definition distanceToSquared :: "Vector3 \<Rightarrow> Vector3 \<Rightarrow> real" where
  "distanceToSquared a b =
     (let dx = vx a - vx b; dy = vy a - vy b; dz = vz a - vz b
      in dx * dx + dy * dy + dz * dz)"

definition distanceTo :: "Vector3 \<Rightarrow> Vector3 \<Rightarrow> real" where
  "distanceTo a b = sqrt (distanceToSquared a b)"

section \<open>Bodies\<close>

text \<open>
  The physical fields of \<open>CelestialBody\<close>. Bodies are objects: the registry and the
  tree hold references to them, compared with \<open>===\<close>. A reference is a natural number
  and the heap maps every reference to the body's current fields.
\<close>

record CelestialBody =
  mass :: real
  position :: Vector3
  velocity :: Vector3
  isStatic :: bool

type_synonym ref = nat
type_synonym heap = "ref \<Rightarrow> CelestialBody"

section \<open>The Barnes-Hut octree\<close>

record Box =
  box_min :: Vector3
  box_max :: Vector3

datatype BHNode = BHNode
  (centerOfMass: Vector3)
  (totalMass: real)
  (body: "ref option")
  (children: "BHNode option list")
  (bounds: Box)
  (isEmpty: bool)

definition newBHNode :: "Box \<Rightarrow> BHNode" where
  "newBHNode bnds = BHNode (Vector3 0 0 0) 0 None (replicate 8 None) bnds True"

definition getCenter :: "BHNode \<Rightarrow> Vector3" where
  "getCenter node = Vector3
     ((vx (box_min (bounds node)) + vx (box_max (bounds node))) / 2)
     ((vy (box_min (bounds node)) + vy (box_max (bounds node))) / 2)
     ((vz (box_min (bounds node)) + vz (box_max (bounds node))) / 2)"

definition getSize :: "BHNode \<Rightarrow> real" where
  "getSize node =
     (let dx = vx (box_max (bounds node)) - vx (box_min (bounds node));
          dy = vy (box_max (bounds node)) - vy (box_min (bounds node));
          dz = vz (box_max (bounds node)) - vz (box_min (bounds node))
      in max (max dx dy) dz)"

definition contains :: "BHNode \<Rightarrow> Vector3 \<Rightarrow> bool" where
  "contains node p \<longleftrightarrow>
     vx p \<ge> vx (box_min (bounds node)) \<and> vx p \<le> vx (box_max (bounds node)) \<and>
     vy p \<ge> vy (box_min (bounds node)) \<and> vy p \<le> vy (box_max (bounds node)) \<and>
     vz p \<ge> vz (box_min (bounds node)) \<and> vz p \<le> vz (box_max (bounds node))"

text \<open>
  The octant index is built with \<open>|=\<close> from the bits 1, 2 and 4, which are disjoint, so
  the sum is the same number; \<open>octant & 1\<close>, \<open>octant & 2\<close> and \<open>octant & 4\<close> test the
  bits 0, 1 and 2.
\<close>

definition getOctant :: "BHNode \<Rightarrow> Vector3 \<Rightarrow> nat" where
  "getOctant node p =
     (let center = getCenter node
      in (if vx p \<ge> vx center then 1 else 0) +
         (if vy p \<ge> vy center then 2 else 0) +
         (if vz p \<ge> vz center then 4 else 0))"

definition createChild :: "BHNode \<Rightarrow> nat \<Rightarrow> BHNode" where
  "createChild node octant =
     (let center = getCenter node;
          mn = Vector3
            (if odd octant then vx center else vx (box_min (bounds node)))
            (if odd (octant div 2) then vy center else vy (box_min (bounds node)))
            (if odd (octant div 4) then vz center else vz (box_min (bounds node)));
          mx = Vector3
            (if odd octant then vx (box_max (bounds node)) else vx center)
            (if odd (octant div 2) then vy (box_max (bounds node)) else vy center)
            (if odd (octant div 4) then vz (box_max (bounds node)) else vz center)
      in newBHNode \<lparr>box_min = mn, box_max = mx\<rparr>)"

text \<open>
  \<open>childAt\<close> is the idiom
  \<open>if (!node.children[o]) node.children[o] = node.createChild(o)\<close> followed by the
  read of \<open>node.children[o]\<close>; \<open>setChild\<close> puts the child, changed in place by the
  recursive call, back into its slot.
\<close>

definition childAt :: "BHNode \<Rightarrow> nat \<Rightarrow> BHNode" where
  "childAt node octant =
     (case children node ! octant of None \<Rightarrow> createChild node octant | Some c \<Rightarrow> c)"

definition setChild :: "BHNode \<Rightarrow> nat \<Rightarrow> BHNode \<Rightarrow> BHNode" where
  "setChild node octant c =
     BHNode (centerOfMass node) (totalMass node) (body node)
       ((children node)[octant := Some c]) (bounds node) (isEmpty node)"

definition clearBody :: "BHNode \<Rightarrow> BHNode" where
  "clearBody node =
     BHNode (centerOfMass node) (totalMass node) None (children node) (bounds node)
       (isEmpty node)"

text \<open>
  \<open>insert\<close> recurses on a child node that it may just have created, so nothing gets
  smaller structurally. The first argument is the depth of recursion still allowed (the
  call stack); \<open>None\<close> is the stack running out, which JavaScript reports as a
  \<open>RangeError\<close>.
\<close>

fun insertBody :: "nat \<Rightarrow> heap \<Rightarrow> ref \<Rightarrow> BHNode \<Rightarrow> BHNode option" where
  "insertBody 0 H b node = None"
| "insertBody (Suc fuel) H b node =
     (if \<not> contains node (position (H b)) then Some node
      else if isEmpty node then
        Some (BHNode (position (H b)) (mass (H b)) (Some b) (children node) (bounds node) False)
      else
        (case body node of
           Some existingBody \<Rightarrow>
             (let node1 = clearBody node;
                  existingOctant = getOctant node1 (position (H existingBody))
              in case insertBody fuel H existingBody (childAt node1 existingOctant) of
                   None \<Rightarrow> None
                 | Some c1 \<Rightarrow>
                     (let node2 = setChild node1 existingOctant c1;
                          newOctant = getOctant node2 (position (H b))
                      in case insertBody fuel H b (childAt node2 newOctant) of
                           None \<Rightarrow> None
                         | Some c2 \<Rightarrow> Some (setChild node2 newOctant c2)))
         | None \<Rightarrow>
             (let octant = getOctant node (position (H b))
              in case insertBody fuel H b (childAt node octant) of
                   None \<Rightarrow> None
                 | Some c \<Rightarrow> Some (setChild node octant c))))"

text \<open>
  \<open>updateCenterOfMass\<close>: the loop over \<open>node.children\<close> is \<open>updateChildren\<close>, which
  carries the two accumulators \<open>totalMass\<close> and \<open>weightedSum\<close> and returns the
  children as the recursive calls left them.
\<close>

fun updateCenterOfMass :: "heap \<Rightarrow> BHNode \<Rightarrow> BHNode"
  and updateChildren ::
    "heap \<Rightarrow> BHNode option list \<Rightarrow> real \<Rightarrow> Vector3 \<Rightarrow> BHNode option list \<times> real \<times> Vector3"
where
  "updateCenterOfMass H (BHNode com tm bd chs bnds emp) =
     (if emp then BHNode com tm bd chs bnds emp
      else
        (case bd of
           Some b \<Rightarrow> BHNode (position (H b)) (mass (H b)) bd chs bnds emp
         | None \<Rightarrow>
             (case updateChildren H chs 0 (Vector3 0 0 0) of
                (chs', totalMass', weightedSum) \<Rightarrow>
                  if totalMass' > 0
                  then BHNode (divideScalar weightedSum totalMass') totalMass' bd chs' bnds emp
                  else BHNode com tm bd chs' bnds emp)))"
| "updateChildren H [] totalMass' weightedSum = ([], totalMass', weightedSum)"
| "updateChildren H (None # rest) totalMass' weightedSum =
     (case updateChildren H rest totalMass' weightedSum of
        (rest', r) \<Rightarrow> (None # rest', r))"
| "updateChildren H (Some child # rest) totalMass' weightedSum =
     (if \<not> isEmpty child then
        (let child' = updateCenterOfMass H child
         in case updateChildren H rest (totalMass' + totalMass child')
                   (addV weightedSum (multiplyScalar (centerOfMass child') (totalMass child'))) of
              (rest', r) \<Rightarrow> (Some child' # rest', r))
      else
        (case updateChildren H rest totalMass' weightedSum of
           (rest', r) \<Rightarrow> (Some child # rest', r)))"

record BarnesHutTree =
  root :: BHNode
  theta :: real

fun buildInserts :: "nat \<Rightarrow> heap \<Rightarrow> ref list \<Rightarrow> BHNode \<Rightarrow> BHNode option" where
  "buildInserts fuel H [] rt = Some rt"
| "buildInserts fuel H (b # rest) rt =
     (case insertBody fuel H b rt of
        None \<Rightarrow> None
      | Some rt' \<Rightarrow> buildInserts fuel H rest rt')"

definition buildTree :: "nat \<Rightarrow> heap \<Rightarrow> ref list \<Rightarrow> BHNode \<Rightarrow> BHNode option" where
  "buildTree fuel H bods rt =
     (case buildInserts fuel H bods rt of
        None \<Rightarrow> None
      | Some rt' \<Rightarrow> Some (updateCenterOfMass H rt'))"

text \<open>The constructor of \<open>BarnesHutTree\<close>.\<close>

definition newBarnesHutTree ::
  "nat \<Rightarrow> heap \<Rightarrow> ref list \<Rightarrow> Box \<Rightarrow> real \<Rightarrow> BarnesHutTree option" where
  "newBarnesHutTree fuel H bods bnds th =
     (case buildTree fuel H bods (newBHNode bnds) of
        None \<Rightarrow> None
      | Some rt \<Rightarrow> Some \<lparr>root = rt, theta = th\<rparr>)"

text \<open>
  \<open>calculateForceRecursive\<close> adds into the vector \<open>force\<close> it is given; the model
  returns the vector after the additions. \<open>calculateForceChildren\<close> is its loop over
  \<open>node.children\<close>.
\<close>

fun calculateForceRecursive ::
    "heap \<Rightarrow> real \<Rightarrow> ref \<Rightarrow> BHNode \<Rightarrow> real \<Rightarrow> Vector3 \<Rightarrow> Vector3"
  and calculateForceChildren ::
    "heap \<Rightarrow> real \<Rightarrow> ref \<Rightarrow> BHNode option list \<Rightarrow> real \<Rightarrow> Vector3 \<Rightarrow> Vector3"
where
  "calculateForceRecursive H th b (BHNode com tm bd chs bnds emp) g force =
     (if emp then force
      else if bd = Some b then force
      else
        (let direction = subVectors com (position (H b));
             distance = vlength direction
         in if distance < 0.001 then force
            else
              (let s = getSize (BHNode com tm bd chs bnds emp);
                   ratio = s / distance
               in if ratio < th \<or> bd \<noteq> None then
                    (let distanceSquared = distance * distance;
                         minDistance = 0.1;
                         clampedDistanceSquared = max distanceSquared (minDistance * minDistance);
                         forceMagnitude = g * mass (H b) * tm / clampedDistanceSquared
                     in addV force (multiplyScalar (normalizeV direction) forceMagnitude))
                  else calculateForceChildren H th b chs g force)))"
| "calculateForceChildren H th b [] g force = force"
| "calculateForceChildren H th b (None # rest) g force =
     calculateForceChildren H th b rest g force"
| "calculateForceChildren H th b (Some child # rest) g force =
     (if \<not> isEmpty child
      then calculateForceChildren H th b rest g (calculateForceRecursive H th b child g force)
      else calculateForceChildren H th b rest g force)"

definition calculateForce :: "heap \<Rightarrow> BarnesHutTree \<Rightarrow> ref \<Rightarrow> real \<Rightarrow> Vector3" where
  "calculateForce H tree b g =
     calculateForceRecursive H (theta tree) b (root tree) g (Vector3 0 0 0)"

text \<open>
  \<open>calculateBounds\<close>: the running minima and maxima start at \<open>Infinity\<close> and
  \<open>-Infinity\<close>, so after the first body they are its coordinates; the model starts
  there.
\<close>

definition calculateBounds :: "heap \<Rightarrow> ref list \<Rightarrow> real \<Rightarrow> Box" where
  "calculateBounds H bods padding =
     (case bods of
        [] \<Rightarrow> \<lparr>box_min = Vector3 (-100) (-100) (-100), box_max = Vector3 100 100 100\<rparr>
      | b0 # rest \<Rightarrow>
          (let minX = fold (\<lambda>b m. min m (vx (position (H b)))) rest (vx (position (H b0)));
               minY = fold (\<lambda>b m. min m (vy (position (H b)))) rest (vy (position (H b0)));
               minZ = fold (\<lambda>b m. min m (vz (position (H b)))) rest (vz (position (H b0)));
               maxX = fold (\<lambda>b m. max m (vx (position (H b)))) rest (vx (position (H b0)));
               maxY = fold (\<lambda>b m. max m (vy (position (H b)))) rest (vy (position (H b0)));
               maxZ = fold (\<lambda>b m. max m (vz (position (H b)))) rest (vz (position (H b0)))
           in \<lparr>box_min = Vector3 (minX - padding) (minY - padding) (minZ - padding),
               box_max = Vector3 (maxX + padding) (maxY + padding) (maxZ + padding)\<rparr>))"

section \<open>The physics engine\<close>

record PhysicsEngine =
  G :: real
  bodies :: "ref list"
  useBarnesHut :: bool
  barnesHutTheta :: real

definition calculateGravityForce ::
  "(nat \<Rightarrow> real) \<Rightarrow> PhysicsEngine \<Rightarrow> CelestialBody \<Rightarrow> CelestialBody \<Rightarrow> nat \<Rightarrow> Vector3 \<times> nat" where
  "calculateGravityForce rand E body1 body2 k =
     (let direction = subVectors (position body2) (position body1);
          distanceSquared = lengthSq direction;
          minDistance = 0.1;
          clampedDistanceSquared = max distanceSquared (minDistance * minDistance)
      in if distanceSquared < 0.001 then
           (let randomDirection = Vector3
                  ((rand k - 0.5) * 0.1)
                  ((rand (k + 1) - 0.5) * 0.1)
                  ((rand (k + 2) - 0.5) * 0.1);
                forceMagnitude = G E * (mass body1 * mass body2) / clampedDistanceSquared
            in (multiplyScalar (normalizeV randomDirection) forceMagnitude, k + 3))
         else
           (let forceMagnitude = G E * (mass body1 * mass body2) / clampedDistanceSquared
            in (multiplyScalar (normalizeV direction) forceMagnitude, k)))"

fun totalForceLoop ::
  "(nat \<Rightarrow> real) \<Rightarrow> PhysicsEngine \<Rightarrow> heap \<Rightarrow> ref \<Rightarrow> ref list \<Rightarrow> Vector3 \<times> nat \<Rightarrow> Vector3 \<times> nat" where
  "totalForceLoop rand E H b [] (totalForce, k) = (totalForce, k)"
| "totalForceLoop rand E H b (otherBody # rest) (totalForce, k) =
     (if otherBody = b then totalForceLoop rand E H b rest (totalForce, k)
      else
        (case calculateGravityForce rand E (H b) (H otherBody) k of
           (force, k') \<Rightarrow> totalForceLoop rand E H b rest (addV totalForce force, k')))"

definition calculateTotalForce ::
  "(nat \<Rightarrow> real) \<Rightarrow> PhysicsEngine \<Rightarrow> heap \<Rightarrow> ref \<Rightarrow> nat \<Rightarrow> Vector3 \<times> nat" where
  "calculateTotalForce rand E H b k = totalForceLoop rand E H b (bodies E) (Vector3 0 0 0, k)"

text \<open>
  The outcomes of \<open>update\<close> other than a normal return: the call stack running out in
  the tree's \<open>insert\<close>, a \<open>TypeError\<close> from using the \<open>undefined\<close> that
  \<open>forces.get\<close> returns for a body without an entry, and the division of a force by a
  mass of zero, whose result in JavaScript is infinite or NaN and has no real value.
\<close>

datatype error = RangeError | TypeError | NonFinite

fun forcesLoop ::
  "(nat \<Rightarrow> real) \<Rightarrow> PhysicsEngine \<Rightarrow> heap \<Rightarrow> BarnesHutTree option \<Rightarrow> ref list \<Rightarrow>
   (ref \<rightharpoonup> Vector3) \<times> nat \<Rightarrow> (ref \<rightharpoonup> Vector3) \<times> nat" where
  "forcesLoop rand E H tree [] (forces, k) = (forces, k)"
| "forcesLoop rand E H tree (b # rest) (forces, k) =
     (case tree of
        Some t \<Rightarrow> forcesLoop rand E H tree rest (forces(b \<mapsto> calculateForce H t b (G E)), k)
      | None \<Rightarrow>
          (case calculateTotalForce rand E H b k of
             (f, k') \<Rightarrow> forcesLoop rand E H tree rest (forces(b \<mapsto> f), k')))"

fun velocityLoop :: "(ref \<rightharpoonup> Vector3) \<Rightarrow> real \<Rightarrow> ref list \<Rightarrow> heap \<Rightarrow> error + heap" where
  "velocityLoop forces deltaTime [] H = Inr H"
| "velocityLoop forces deltaTime (b # rest) H =
     (if isStatic (H b) then velocityLoop forces deltaTime rest H
      else
        (case forces b of
           None \<Rightarrow> Inl TypeError
         | Some force \<Rightarrow>
             if mass (H b) = 0 then Inl NonFinite
             else
               (let acceleration = divideScalar force (mass (H b))
                in velocityLoop forces deltaTime rest
                     (H(b := (H b)\<lparr>velocity :=
                          addV (velocity (H b)) (multiplyScalar acceleration deltaTime)\<rparr>)))))"

fun positionLoop :: "real \<Rightarrow> ref list \<Rightarrow> heap \<Rightarrow> heap" where
  "positionLoop deltaTime [] H = H"
| "positionLoop deltaTime (b # rest) H =
     (if isStatic (H b) then positionLoop deltaTime rest H
      else
        (let displacement = multiplyScalar (velocity (H b)) deltaTime
         in positionLoop deltaTime rest
              (H(b := (H b)\<lparr>position := addV (position (H b)) displacement\<rparr>))))"

text \<open>
  \<open>update\<close> in two parts: \<open>computeForces\<close> is its first part, down to the end of
  the loop that fills the map \<open>forces\<close> (the optional build of the tree, then one
  entry per body of the registry); the two integration loops follow.
\<close>

definition computeForces ::
  "nat \<Rightarrow> (nat \<Rightarrow> real) \<Rightarrow> PhysicsEngine \<Rightarrow> heap \<Rightarrow> nat \<Rightarrow> error + (ref \<rightharpoonup> Vector3) \<times> nat" where
  "computeForces fuel rand E H k =
     (case (if useBarnesHut E \<and> length (bodies E) > 2
            then map_option Some
                   (newBarnesHutTree fuel H (bodies E) (calculateBounds H (bodies E) 10)
                      (barnesHutTheta E))
            else Some None) of
        None \<Rightarrow> Inl RangeError
      | Some tree \<Rightarrow> Inr (forcesLoop rand E H tree (bodies E) (Map.empty, k)))"

definition update ::
  "nat \<Rightarrow> (nat \<Rightarrow> real) \<Rightarrow> PhysicsEngine \<Rightarrow> real \<Rightarrow> heap \<times> nat \<Rightarrow> error + heap \<times> nat" where
  "update fuel rand E deltaTime s =
     (case s of (H, k) \<Rightarrow>
        (case computeForces fuel rand E H k of
           Inl e \<Rightarrow> Inl e
         | Inr (forces, k') \<Rightarrow>
             (case velocityLoop forces deltaTime (bodies E) H of
                Inl e \<Rightarrow> Inl e
              | Inr H1 \<Rightarrow> Inr (positionLoop deltaTime (bodies E) H1, k'))))"


text \<open>
  \<open>getTotalEnergy\<close> assigns to no field of any body; the model returns the heap it
  was given next to the number, so that this can be stated.
\<close>

definition getTotalEnergy :: "PhysicsEngine \<Rightarrow> heap \<Rightarrow> real \<times> heap" where
  "getTotalEnergy E H =
     (let kineticEnergy =
            fold (\<lambda>b ke. ke + 0.5 * mass (H b) * lengthSq (velocity (H b))) (bodies E) 0;
          potentialEnergy =
            fold (\<lambda>i pe.
                    fold (\<lambda>j pe'.
                            (let body1 = H (bodies E ! i);
                                 body2 = H (bodies E ! j);
                                 distance = distanceTo (position body1) (position body2)
                             in pe' - G E * mass body1 * mass body2 / max distance 0.1))
                         [i + 1 ..< length (bodies E)] pe)
                 [0 ..< length (bodies E)] 0
      in (kineticEnergy + potentialEnergy, H))"

section \<open>Notions used to state the properties\<close>

text \<open>A tree node taken as one body: its aggregate mass at its centre of mass.\<close>

definition pointMass :: "BHNode \<Rightarrow> CelestialBody" where
  "pointMass node =
     \<lparr>mass = totalMass node, position = centerOfMass node, velocity = Vector3 0 0 0,
      isStatic = False\<rparr>"


text \<open>
  The bodies held below a node: the body of a leaf, or the bodies below the children.
\<close>

fun subtreeBodies :: "BHNode \<Rightarrow> ref list"
  and childrenBodies :: "BHNode option list \<Rightarrow> ref list"
where
  "subtreeBodies (BHNode com tm bd chs bnds emp) =
     (case bd of Some b \<Rightarrow> [b] | None \<Rightarrow> childrenBodies chs)"
| "childrenBodies [] = []"
| "childrenBodies (None # rest) = childrenBodies rest"
| "childrenBodies (Some c # rest) = subtreeBodies c @ childrenBodies rest"

text \<open>
  The sum of the masses of a list of bodies, the sum of their positions weighted by
  their masses, and the quotient of the two, the mass-weighted average position.
\<close>

definition massSum :: "heap \<Rightarrow> ref list \<Rightarrow> real" where
  "massSum H bs = (\<Sum>b\<leftarrow>bs. mass (H b))"

definition weightedPositions :: "heap \<Rightarrow> ref list \<Rightarrow> Vector3" where
  "weightedPositions H bs = Vector3
     (\<Sum>b\<leftarrow>bs. vx (position (H b)) * mass (H b))
     (\<Sum>b\<leftarrow>bs. vy (position (H b)) * mass (H b))
     (\<Sum>b\<leftarrow>bs. vz (position (H b)) * mass (H b))"

definition massCenter :: "heap \<Rightarrow> ref list \<Rightarrow> Vector3" where
  "massCenter H bs = divideScalar (weightedPositions H bs) (massSum H bs)"

text \<open>
  What the aggregate pass is meant to establish, at every node of a tree: the bodies below
  the node lie within its bounds; a leaf carries the mass and the position of its body;
  an internal node that is not empty carries the sum of the masses below it and their
  mass-weighted average position.
\<close>

fun aggregated :: "heap \<Rightarrow> BHNode \<Rightarrow> bool"
  and aggregatedChildren :: "heap \<Rightarrow> BHNode option list \<Rightarrow> bool"
where
  "aggregated H (BHNode com tm bd chs bnds emp) =
     (list_all (\<lambda>b. contains (BHNode com tm bd chs bnds emp) (position (H b)))
        (subtreeBodies (BHNode com tm bd chs bnds emp))
      \<and> (case bd of
           Some b \<Rightarrow> tm = mass (H b) \<and> com = position (H b)
         | None \<Rightarrow> emp \<or> (tm = massSum H (childrenBodies chs)
                           \<and> com = massCenter H (childrenBodies chs)))
      \<and> aggregatedChildren H chs)"
| "aggregatedChildren H [] = True"
| "aggregatedChildren H (None # rest) = aggregatedChildren H rest"
| "aggregatedChildren H (Some c # rest) = (aggregated H c \<and> aggregatedChildren H rest)"

text \<open>
  The shape of a tree that the insertions build. A node has eight slots; an empty node
  and a leaf have no children; the body of a leaf lies within the bounds of the leaf; an
  internal node has a body below it; the child in slot \<open>i\<close> has the bounds that
  \<open>createChild\<close> gives slot \<open>i\<close>, is not empty and has this shape itself.
\<close>

fun wellFormed :: "heap \<Rightarrow> BHNode \<Rightarrow> bool"
  and wellFormedChildren :: "heap \<Rightarrow> Box \<Rightarrow> nat \<Rightarrow> BHNode option list \<Rightarrow> bool"
where
  "wellFormed H (BHNode com tm bd chs bnds emp) =
     (length chs = 8
      \<and> (emp \<longrightarrow> bd = None)
      \<and> (emp \<or> bd \<noteq> None \<longrightarrow> chs = replicate 8 None)
      \<and> (case bd of
           Some b \<Rightarrow> contains (BHNode com tm bd chs bnds emp) (position (H b))
         | None \<Rightarrow> True)
      \<and> (\<not> emp \<and> bd = None \<longrightarrow> childrenBodies chs \<noteq> [])
      \<and> wellFormedChildren H bnds 0 chs)"
| "wellFormedChildren H bnds i [] = True"
| "wellFormedChildren H bnds i (None # rest) = wellFormedChildren H bnds (Suc i) rest"
| "wellFormedChildren H bnds i (Some c # rest) =
     (bounds c = bounds (createChild (newBHNode bnds) i) \<and> \<not> isEmpty c \<and> wellFormed H c
      \<and> wellFormedChildren H bnds (Suc i) rest)"



definition sumV :: "Vector3 list \<Rightarrow> Vector3" where
  "sumV vs = Vector3 (\<Sum>v\<leftarrow>vs. vx v) (\<Sum>v\<leftarrow>vs. vy v) (\<Sum>v\<leftarrow>vs. vz v)"

section \<open>Concrete inputs\<close>

definition exampleEngine :: PhysicsEngine where
  "exampleEngine = \<lparr>G = 1, bodies = [], useBarnesHut = False, barnesHutTheta = 0.5\<rparr>"

definition bodyAt :: "real \<Rightarrow> Vector3 \<Rightarrow> CelestialBody" where
  "bodyAt m p = \<lparr>mass = m, position = p, velocity = Vector3 0 0 0, isStatic = False\<rparr>"

definition testBox :: Box where
  "testBox = \<lparr>box_min = Vector3 (-10) (-10) (-10), box_max = Vector3 10 10 10\<rparr>"

text \<open>Every body has mass 1 and sits at the origin.\<close>

definition coincidentHeap :: heap where
  "coincidentHeap = (\<lambda>r. bodyAt 1 (Vector3 0 0 0))"

definition coincidentLeaf :: BHNode where
  "coincidentLeaf = BHNode (Vector3 0 0 0) 1 (Some 1) (replicate 8 None) testBox False"

definition nearLeaf :: BHNode where
  "nearLeaf = BHNode (Vector3 (1/100) 0 0) 1 (Some 1) (replicate 8 None) testBox False"

definition farLeaf :: BHNode where
  "farLeaf = BHNode (Vector3 10 0 0) 5 (Some 1) (replicate 8 None) testBox False"

text \<open>Three calls of \<open>Math.random()\<close> returning 0.5, 0.75, 0.5.\<close>

definition jitterDraws :: "nat \<Rightarrow> real" where
  "jitterDraws k = (if k = 1 then 3/4 else 1/2)"

text \<open>The two bodies of the energy test of the repository.\<close>

definition energyHeap :: heap where
  "energyHeap = (\<lambda>r. if r = 0
      then \<lparr>mass = 10, position = Vector3 0 0 0, velocity = Vector3 1 0 0, isStatic = False\<rparr>
      else \<lparr>mass = 5, position = Vector3 10 0 0, velocity = Vector3 0 1 0, isStatic = False\<rparr>)"

text \<open>The static star and the planet of the integration test of the repository.\<close>

definition starPlanetHeap :: heap where
  "starPlanetHeap = (\<lambda>r. if r = 0
      then \<lparr>mass = 100, position = Vector3 0 0 0, velocity = Vector3 0 0 0, isStatic = True\<rparr>
      else \<lparr>mass = 1, position = Vector3 10 0 0, velocity = Vector3 0 0 1, isStatic = False\<rparr>)"

definition starPlanetEngine :: PhysicsEngine where
  "starPlanetEngine = \<lparr>G = 1, bodies = [0, 1], useBarnesHut = True, barnesHutTheta = 0.5\<rparr>"

definition starPlanetAfter :: heap where
  "starPlanetAfter = starPlanetHeap(1 :=
      \<lparr>mass = 1, position = Vector3 (999/100) 0 (1/10), velocity = Vector3 (-1/10) 0 1,
       isStatic = False\<rparr>)"

text \<open>
  The tree that \<open>buildTree\<close> makes of the two bodies of \<open>energyHeap\<close> in
  \<open>testBox\<close>: both fall into octant 7 of the root and part one level below.
\<close>

definition exampleLeaf0 :: BHNode where
  "exampleLeaf0 = BHNode (Vector3 0 0 0) 10 (Some 0) (replicate 8 None)
     \<lparr>box_min = Vector3 0 0 0, box_max = Vector3 5 5 5\<rparr> False"

definition exampleLeaf1 :: BHNode where
  "exampleLeaf1 = BHNode (Vector3 10 0 0) 5 (Some 1) (replicate 8 None)
     \<lparr>box_min = Vector3 5 0 0, box_max = Vector3 10 5 5\<rparr> False"

definition exampleInner :: BHNode where
  "exampleInner = BHNode (Vector3 (10/3) 0 0) 15 None
     [Some exampleLeaf0, Some exampleLeaf1, None, None, None, None, None, None]
     \<lparr>box_min = Vector3 0 0 0, box_max = Vector3 10 10 10\<rparr> False"

definition exampleTree :: BHNode where
  "exampleTree = BHNode (Vector3 (10/3) 0 0) 15 None
     [None, None, None, None, None, None, None, Some exampleInner] testBox False"




text \<open>A star of mass 1000 and a planet of mass 1 at distance 0.5, and their tree.\<close>

definition starHeap :: heap where
  "starHeap = (\<lambda>r. if r = 0 then bodyAt 1000 (Vector3 0 0 0) else bodyAt 1 (Vector3 (1/2) 0 0))"

definition starTree :: BarnesHutTree where
  "starTree = \<lparr>root = BHNode (Vector3 (1/2002) 0 0) 1001 None
      [None, None, None, None, None, None,
       Some (BHNode (Vector3 0 0 0) 1000 (Some 0) (replicate 8 None)
          \<lparr>box_min = Vector3 (-10) 0 0, box_max = Vector3 (1/4) 10 10\<rparr> False),
       Some (BHNode (Vector3 (1/2) 0 0) 1 (Some 1) (replicate 8 None)
          \<lparr>box_min = Vector3 (1/4) 0 0, box_max = Vector3 (21/2) 10 10\<rparr> False)]
      \<lparr>box_min = Vector3 (-10) (-10) (-10), box_max = Vector3 (21/2) 10 10\<rparr> False,
     theta = 0\<rparr>"

section \<open>Lemmas\<close>

lemma vlength_nonneg: "0 \<le> vlength v" by (simp add: vlength_def)

lemma vlength_sq: "vlength v * vlength v = lengthSq v"
  by (simp add: vlength_def lengthSq_def)

lemma vlength_eq_0_iff: "vlength v = 0 \<longleftrightarrow> v = Vector3 0 0 0"
proof (cases v)
  case (Vector3 a b c)
  have "a*a + b*b + c*c = 0 \<longleftrightarrow> a = 0 \<and> b = 0 \<and> c = 0"
    by (smt (verit) zero_le_square mult_eq_0_iff)
  then show ?thesis using Vector3 by (simp add: vlength_def)
qed


lemma vlength_multiplyScalar: "vlength (multiplyScalar v s) = \<bar>s\<bar> * vlength v"
proof -
  have "vx v * s * (vx v * s) + vy v * s * (vy v * s) + vz v * s * (vz v * s)
      = (s * s) * (vx v * vx v + vy v * vy v + vz v * vz v)" by (simp add: algebra_simps)
  then show ?thesis
    by (simp add: vlength_def multiplyScalar_def real_sqrt_mult)
qed

lemma vlength_normalizeV: "v \<noteq> Vector3 0 0 0 \<Longrightarrow> vlength (normalizeV v) = 1"
  using vlength_nonneg[of v]
  by (simp add: normalizeV_def divideScalar_def vlength_multiplyScalar normalizeDivisor_def vlength_eq_0_iff)

lemma calculateForceRecursive_sel:
  "calculateForceRecursive H th b node g force =
     (if isEmpty node then force
      else if body node = Some b then force
      else if vlength (subVectors (centerOfMass node) (position (H b))) < 0.001 then force
      else if getSize node / vlength (subVectors (centerOfMass node) (position (H b))) < th
              \<or> body node \<noteq> None
      then addV force
             (multiplyScalar (normalizeV (subVectors (centerOfMass node) (position (H b))))
                (g * mass (H b) * totalMass node
                   / max (lengthSq (subVectors (centerOfMass node) (position (H b)))) (0.1 * 0.1)))
      else calculateForceChildren H th b (children node) g force)"
  by (cases node) (simp add: Let_def vlength_sq getSize_def)

lemma addV_zero_left: "addV (Vector3 0 0 0) v = v"
  by (cases v) (simp add: addV_def)



lemma fold_minus_sum:
  "fold (\<lambda>j pe. pe - f j) [a ..< c] (pe0::real) = pe0 - (\<Sum>j = a ..< c. f j)"
proof (induction c arbitrary: pe0)
  case 0
  then show ?case by simp
next
  case (Suc c)
  show ?case
  proof (cases "a \<le> c")
    case True
    then show ?thesis using Suc by (simp add: algebra_simps)
  next
    case False
    then show ?thesis by simp
  qed
qed

lemma fold_plus_sum_list:
  "fold (\<lambda>b ke. ke + f b) xs (ke0::real) = ke0 + sum_list (map f xs)"
  by (induction xs arbitrary: ke0) (simp_all add: algebra_simps)

lemma fold_minus_sum_outer:
  "fold (\<lambda>i pe. pe - g i) [a ..< c] (pe0::real) = pe0 - (\<Sum>i = a ..< c. g i)"
  by (rule fold_minus_sum)

lemma lengthSq_vlength: "lengthSq v = (vlength v)\<^sup>2"
  by (simp add: power2_eq_square vlength_sq)

lemma velocityLoop_static:
  "velocityLoop forces dt bods H = Inr H1 \<Longrightarrow> isStatic (H b) \<Longrightarrow> H1 b = H b"
proof (induction bods arbitrary: H)
  case Nil
  then show ?case by simp
next
  case (Cons a bods)
  show ?case
  proof (cases "isStatic (H a)")
    case True
    with Cons show ?thesis by simp
  next
    case False
    with Cons.prems obtain f where f: "forces a = Some f" and m: "mass (H a) \<noteq> 0"
      by (auto split: option.splits if_splits)
    let ?H = "H(a := (H a)\<lparr>velocity := addV (velocity (H a))
                 (multiplyScalar (divideScalar f (mass (H a))) dt)\<rparr>)"
    from Cons.prems False f m have r: "velocityLoop forces dt bods ?H = Inr H1"
      by (simp add: Let_def)
    from False Cons.prems(2) have ne: "a \<noteq> b" by auto
    then have "isStatic (?H b)" using Cons.prems(2) by simp
    then have "H1 b = ?H b" by (rule Cons.IH[OF r])
    also have "?H b = H b" using ne by simp
    finally show ?thesis .
  qed
qed

lemma positionLoop_static:
  "isStatic (H b) \<Longrightarrow> positionLoop dt bods H b = H b"
proof (induction bods arbitrary: H)
  case Nil
  then show ?case by simp
next
  case (Cons a bods)
  show ?case
  proof (cases "isStatic (H a)")
    case True
    with Cons show ?thesis by simp
  next
    case False
    let ?H = "H(a := (H a)\<lparr>position := addV (position (H a))
                 (multiplyScalar (velocity (H a)) dt)\<rparr>)"
    from False Cons.prems have ne: "a \<noteq> b" by auto
    then have "isStatic (?H b)" using Cons.prems by simp
    then have "positionLoop dt bods ?H b = ?H b" by (rule Cons.IH)
    also have "?H b = H b" using ne by simp
    finally have "positionLoop dt bods ?H b = H b" .
    moreover have "positionLoop dt (a # bods) H = positionLoop dt bods ?H"
      using False by (simp add: Let_def)
    ultimately show ?thesis by simp
  qed
qed











lemma velocityLoop_other:
  "velocityLoop forces dt bods H = Inr H1 \<Longrightarrow> b \<notin> set bods \<Longrightarrow> H1 b = H b"
proof (induction bods arbitrary: H)
  case Nil
  then show ?case by simp
next
  case (Cons a bods)
  show ?case
  proof (cases "isStatic (H a)")
    case True
    with Cons show ?thesis by simp
  next
    case False
    with Cons.prems obtain f where f: "forces a = Some f" and m: "mass (H a) \<noteq> 0"
      by (auto split: option.splits if_splits)
    let ?H = "H(a := (H a)\<lparr>velocity := addV (velocity (H a))
                 (multiplyScalar (divideScalar f (mass (H a))) dt)\<rparr>)"
    from Cons.prems False f m have r: "velocityLoop forces dt bods ?H = Inr H1"
      by (simp add: Let_def)
    from Cons.prems(2) have ne: "a \<noteq> b" and nb: "b \<notin> set bods" by auto
    have "H1 b = ?H b" by (rule Cons.IH[OF r nb])
    also have "?H b = H b" using ne by simp
    finally show ?thesis .
  qed
qed

lemma velocityLoop_effect:
  "velocityLoop forces dt bods H = Inr H1 \<Longrightarrow> distinct bods \<Longrightarrow> b \<in> set bods \<Longrightarrow>
   \<not> isStatic (H b) \<Longrightarrow>
   \<exists>f. forces b = Some f \<and>
       H1 b = (H b)\<lparr>velocity := addV (velocity (H b))
                 (multiplyScalar (divideScalar f (mass (H b))) dt)\<rparr>"
proof (induction bods arbitrary: H)
  case Nil
  then show ?case by simp
next
  case (Cons a bods)
  show ?case
  proof (cases "isStatic (H a)")
    case True
    with Cons.prems have "b \<noteq> a" by auto
    with True Cons show ?thesis by simp
  next
    case False
    with Cons.prems obtain f where f: "forces a = Some f" and m: "mass (H a) \<noteq> 0"
      by (auto split: option.splits if_splits)
    let ?H = "H(a := (H a)\<lparr>velocity := addV (velocity (H a))
                 (multiplyScalar (divideScalar f (mass (H a))) dt)\<rparr>)"
    from Cons.prems False f m have r: "velocityLoop forces dt bods ?H = Inr H1"
      by (simp add: Let_def)
    show ?thesis
    proof (cases "b = a")
      case True
      with Cons.prems(2) have "b \<notin> set bods" by simp
      from velocityLoop_other[OF r this] True f show ?thesis by simp
    next
      case ne: False
      with Cons.prems have d: "distinct bods" and bin: "b \<in> set bods"
        and ns: "\<not> isStatic (?H b)" by auto
      from Cons.IH[of ?H, OF r d bin ns] ne show ?thesis by simp
    qed
  qed
qed

lemma positionLoop_other:
  "b \<notin> set bods \<Longrightarrow> positionLoop dt bods H b = H b"
proof (induction bods arbitrary: H)
  case Nil
  then show ?case by simp
next
  case (Cons a bods)
  let ?H = "H(a := (H a)\<lparr>position := addV (position (H a))
               (multiplyScalar (velocity (H a)) dt)\<rparr>)"
  from Cons.prems have ne: "a \<noteq> b" and nb: "b \<notin> set bods" by auto
  show ?case
  proof (cases "isStatic (H a)")
    case True
    with Cons.IH[OF nb] show ?thesis by simp
  next
    case False
    have "positionLoop dt bods ?H b = ?H b" by (rule Cons.IH[OF nb])
    also have "?H b = H b" using ne by simp
    finally have "positionLoop dt bods ?H b = H b" .
    moreover have "positionLoop dt (a # bods) H = positionLoop dt bods ?H"
      using False by (simp add: Let_def)
    ultimately show ?thesis by simp
  qed
qed

lemma positionLoop_effect:
  "distinct bods \<Longrightarrow> b \<in> set bods \<Longrightarrow> \<not> isStatic (H b) \<Longrightarrow>
   positionLoop dt bods H b =
     (H b)\<lparr>position := addV (position (H b)) (multiplyScalar (velocity (H b)) dt)\<rparr>"
proof (induction bods arbitrary: H)
  case Nil
  then show ?case by simp
next
  case (Cons a bods)
  let ?H = "H(a := (H a)\<lparr>position := addV (position (H a))
               (multiplyScalar (velocity (H a)) dt)\<rparr>)"
  show ?case
  proof (cases "b = a")
    case True
    with Cons.prems have nb: "b \<notin> set bods" and ns: "\<not> isStatic (H a)" by auto
    have "positionLoop dt (a # bods) H = positionLoop dt bods ?H"
      using ns by (simp add: Let_def)
    moreover have "positionLoop dt bods ?H b = ?H b" by (rule positionLoop_other[OF nb])
    ultimately show ?thesis using True by simp
  next
    case ne: False
    with Cons.prems have d: "distinct bods" and bin: "b \<in> set bods" by auto
    show ?thesis
    proof (cases "isStatic (H a)")
      case True
      with Cons.IH[of H, OF d bin Cons.prems(3)] show ?thesis by simp
    next
      case False
      have ns: "\<not> isStatic (?H b)" using ne Cons.prems(3) by simp
      have "positionLoop dt (a # bods) H = positionLoop dt bods ?H"
        using False by (simp add: Let_def)
      moreover have "positionLoop dt bods ?H b =
          (?H b)\<lparr>position := addV (position (?H b)) (multiplyScalar (velocity (?H b)) dt)\<rparr>"
        by (rule Cons.IH[of ?H, OF d bin ns])
      ultimately show ?thesis using ne by simp
    qed
  qed
qed







lemma getOctant_less: "getOctant node p < 8"
  by (simp add: getOctant_def Let_def)

lemma getOctant_bit0: "odd (getOctant node p) \<longleftrightarrow> vx p \<ge> vx (getCenter node)"
  by (simp add: getOctant_def Let_def)

lemma getOctant_bit1: "odd (getOctant node p div 2) \<longleftrightarrow> vy p \<ge> vy (getCenter node)"
  by (simp add: getOctant_def Let_def)

lemma getOctant_bit2: "odd (getOctant node p div 4) \<longleftrightarrow> vz p \<ge> vz (getCenter node)"
  by (simp add: getOctant_def Let_def)

lemma bounds_createChild:
  "bounds (createChild node i) =
     \<lparr>box_min = Vector3
        (if odd i then vx (getCenter node) else vx (box_min (bounds node)))
        (if odd (i div 2) then vy (getCenter node) else vy (box_min (bounds node)))
        (if odd (i div 4) then vz (getCenter node) else vz (box_min (bounds node))),
      box_max = Vector3
        (if odd i then vx (box_max (bounds node)) else vx (getCenter node))
        (if odd (i div 2) then vy (box_max (bounds node)) else vy (getCenter node))
        (if odd (i div 4) then vz (box_max (bounds node)) else vz (getCenter node))\<rparr>"
  by (simp add: createChild_def newBHNode_def Let_def)

lemma axis_in_child:
  fixes lo hi x :: real
  shows "lo \<le> x \<Longrightarrow> x \<le> hi \<Longrightarrow>
    (if (lo + hi) / 2 \<le> x then (lo + hi) / 2 \<le> x \<and> x \<le> hi
     else lo \<le> x \<and> x \<le> (lo + hi) / 2)"
  by simp

lemma axis_in_parent:
  fixes lo hi x :: real
  shows "(if s then (lo + hi) / 2 \<le> x \<and> x \<le> hi else lo \<le> x \<and> x \<le> (lo + hi) / 2) \<Longrightarrow>
    lo \<le> x \<and> x \<le> hi"
  by (cases s) (simp_all add: field_simps)

lemma contains_createChild_iff:
  "contains (createChild node i) p \<longleftrightarrow>
     (if odd i then vx (getCenter node) \<le> vx p \<and> vx p \<le> vx (box_max (bounds node))
      else vx (box_min (bounds node)) \<le> vx p \<and> vx p \<le> vx (getCenter node)) \<and>
     (if odd (i div 2) then vy (getCenter node) \<le> vy p \<and> vy p \<le> vy (box_max (bounds node))
      else vy (box_min (bounds node)) \<le> vy p \<and> vy p \<le> vy (getCenter node)) \<and>
     (if odd (i div 4) then vz (getCenter node) \<le> vz p \<and> vz p \<le> vz (box_max (bounds node))
      else vz (box_min (bounds node)) \<le> vz p \<and> vz p \<le> vz (getCenter node))"
  unfolding contains_def bounds_createChild by (cases "odd i"; cases "odd (i div 2)"; cases "odd (i div 4)") simp_all

lemma getCenter_sel:
  "vx (getCenter node) = (vx (box_min (bounds node)) + vx (box_max (bounds node))) / 2"
  "vy (getCenter node) = (vy (box_min (bounds node)) + vy (box_max (bounds node))) / 2"
  "vz (getCenter node) = (vz (box_min (bounds node)) + vz (box_max (bounds node))) / 2"
  by (simp_all add: getCenter_def)

lemma bounds_createChild_contains:
  assumes "contains node p"
  shows "contains (createChild node (getOctant node p)) p"
proof -
  let ?b = "bounds node"
  from assms have
    x: "vx (box_min ?b) \<le> vx p" "vx p \<le> vx (box_max ?b)" and
    y: "vy (box_min ?b) \<le> vy p" "vy p \<le> vy (box_max ?b)" and
    z: "vz (box_min ?b) \<le> vz p" "vz p \<le> vz (box_max ?b)"
    by (simp_all add: contains_def)
  show ?thesis
    unfolding contains_createChild_iff getOctant_bit0 getOctant_bit1 getOctant_bit2 getCenter_sel
    using axis_in_child[OF x] axis_in_child[OF y] axis_in_child[OF z] by blast
qed

lemma contains_createChild_parent:
  assumes "contains (createChild node i) p"
  shows "contains node p"
proof -
  note a = assms[unfolded contains_createChild_iff getCenter_sel]
  from a have x: "vx (box_min (bounds node)) \<le> vx p \<and> vx p \<le> vx (box_max (bounds node))"
    by (intro axis_in_parent[of "odd i"]) blast
  from a have y: "vy (box_min (bounds node)) \<le> vy p \<and> vy p \<le> vy (box_max (bounds node))"
    by (intro axis_in_parent[of "odd (i div 2)"]) blast
  from a have z: "vz (box_min (bounds node)) \<le> vz p \<and> vz p \<le> vz (box_max (bounds node))"
    by (intro axis_in_parent[of "odd (i div 4)"]) blast
  show ?thesis using x y z by (simp add: contains_def)
qed

lemma clearBody_sel [simp]:
  "bounds (clearBody node) = bounds node" "isEmpty (clearBody node) = isEmpty node"
  "body (clearBody node) = None" "children (clearBody node) = children node"
  "centerOfMass (clearBody node) = centerOfMass node" "totalMass (clearBody node) = totalMass node"
  by (simp_all add: clearBody_def)

lemma setChild_sel [simp]:
  "bounds (setChild node i c) = bounds node" "isEmpty (setChild node i c) = isEmpty node"
  "body (setChild node i c) = body node" "children (setChild node i c) = (children node)[i := Some c]"
  "centerOfMass (setChild node i c) = centerOfMass node"
  "totalMass (setChild node i c) = totalMass node"
  by (simp_all add: setChild_def)

lemma getOctant_bounds: "bounds n1 = bounds n2 \<Longrightarrow> getOctant n1 p = getOctant n2 p"
  by (simp add: getOctant_def getCenter_def)

lemma createChild_bounds: "bounds n1 = bounds n2 \<Longrightarrow> createChild n1 i = createChild n2 i"
  by (simp add: createChild_def getCenter_def Let_def)

lemma contains_bounds: "bounds n1 = bounds n2 \<Longrightarrow> contains n1 p = contains n2 p"
  by (simp add: contains_def)

lemma getOctant_clearBody [simp]: "getOctant (clearBody node) p = getOctant node p"
  by (rule getOctant_bounds) simp

lemma getOctant_setChild [simp]: "getOctant (setChild node i c) p = getOctant node p"
  by (rule getOctant_bounds) simp

lemma createChild_clearBody [simp]: "createChild (clearBody node) i = createChild node i"
  by (rule createChild_bounds) simp

lemma createChild_setChild [simp]: "createChild (setChild node j c) i = createChild node i"
  by (rule createChild_bounds) simp

lemma childAt_empty_slots:
  "children node = replicate 8 None \<Longrightarrow> i < 8 \<Longrightarrow> childAt (clearBody node) i = createChild node i"
  by (simp add: childAt_def)

lemma childAt_setChild_same:
  "i < length (children node) \<Longrightarrow> childAt (setChild node i c) i = c"
  by (simp add: childAt_def)

lemma insertBody_coincident:
  "\<not> isEmpty node \<Longrightarrow> body node = Some a \<Longrightarrow> children node = replicate 8 None \<Longrightarrow>
   position (H a) = position (H b) \<Longrightarrow> contains node (position (H b)) \<Longrightarrow>
   insertBody fuel H b node = None"
proof (induction fuel arbitrary: node)
  case 0
  then show ?case by simp
next
  case (Suc fuel)
  let ?p = "position (H b)"
  let ?o = "getOctant node ?p"
  let ?c0 = "createChild node ?o"
  have o8: "?o < 8" by (rule getOctant_less)
  have c0: "childAt (clearBody node) ?o = ?c0"
    using Suc.prems(3) o8 by (rule childAt_empty_slots)
  have cont: "contains ?c0 ?p" using Suc.prems(5) by (rule bounds_createChild_contains)
  show ?case
  proof (cases fuel)
    case 0
    then show ?thesis using Suc.prems c0 by (simp add: Let_def)
  next
    case (Suc fuel')
    let ?leaf = "BHNode (position (H a)) (mass (H a)) (Some a) (children ?c0) (bounds ?c0) False"
    have ins_a: "insertBody fuel H a ?c0 = Some ?leaf"
      using Suc cont Suc.prems(4) by (simp add: createChild_def newBHNode_def Let_def)
    have leaf_div: "insertBody fuel H b ?leaf = None"
    proof (rule Suc.IH)
      show "contains ?leaf (position (H b))" using cont by (simp add: contains_def)
    qed (simp_all add: Suc.prems(4) createChild_def newBHNode_def Let_def)
    have len: "?o < length (children (clearBody node))"
      using Suc.prems(3) o8 by simp
    show ?thesis
      using Suc.prems c0 ins_a leaf_div childAt_setChild_same[OF len]
      by (simp add: Let_def)
  qed
qed

lemma fold_min_le_init:
  fixes m0 :: real
  shows "fold (\<lambda>b m. min m (f b)) xs m0 \<le> m0"
proof (induction xs arbitrary: m0)
  case Nil
  then show ?case by simp
next
  case (Cons a xs)
  have "fold (\<lambda>b m. min m (f b)) xs (min m0 (f a)) \<le> min m0 (f a)" by (rule Cons.IH)
  then show ?case by simp
qed

lemma fold_min_le_elem:
  fixes m0 :: real
  shows "b \<in> set xs \<Longrightarrow> fold (\<lambda>b m. min m (f b)) xs m0 \<le> f b"
proof (induction xs arbitrary: m0)
  case Nil
  then show ?case by simp
next
  case (Cons a xs)
  show ?case
  proof (cases "b = a")
    case True
    have "fold (\<lambda>b m. min m (f b)) xs (min m0 (f a)) \<le> min m0 (f a)"
      by (rule fold_min_le_init)
    then show ?thesis using True by simp
  next
    case False
    with Cons.prems have "b \<in> set xs" by simp
    from Cons.IH[OF this] show ?thesis by simp
  qed
qed

lemma fold_max_ge_init:
  fixes m0 :: real
  shows "m0 \<le> fold (\<lambda>b m. max m (f b)) xs m0"
proof (induction xs arbitrary: m0)
  case Nil
  then show ?case by simp
next
  case (Cons a xs)
  have "max m0 (f a) \<le> fold (\<lambda>b m. max m (f b)) xs (max m0 (f a))" by (rule Cons.IH)
  then show ?case by simp
qed

lemma fold_max_ge_elem:
  fixes m0 :: real
  shows "b \<in> set xs \<Longrightarrow> f b \<le> fold (\<lambda>b m. max m (f b)) xs m0"
proof (induction xs arbitrary: m0)
  case Nil
  then show ?case by simp
next
  case (Cons a xs)
  show ?case
  proof (cases "b = a")
    case True
    have "max m0 (f a) \<le> fold (\<lambda>b m. max m (f b)) xs (max m0 (f a))"
      by (rule fold_max_ge_init)
    then show ?thesis using True by simp
  next
    case False
    with Cons.prems have "b \<in> set xs" by simp
    from Cons.IH[OF this] show ?thesis by simp
  qed
qed

lemma fold_min_le_any:
  fixes f :: "'a \<Rightarrow> real"
  shows "b = b0 \<or> b \<in> set xs \<Longrightarrow> fold (\<lambda>b m. min m (f b)) xs (f b0) \<le> f b"
  using fold_min_le_init[of f xs "f b0"] fold_min_le_elem[of b xs f "f b0"] by auto

lemma fold_max_ge_any:
  fixes f :: "'a \<Rightarrow> real"
  shows "b = b0 \<or> b \<in> set xs \<Longrightarrow> f b \<le> fold (\<lambda>b m. max m (f b)) xs (f b0)"
  using fold_max_ge_init[of "f b0" f xs] fold_max_ge_elem[of b xs f "f b0"] by auto

lemma calculateBounds_contains:
  assumes "0 \<le> padding" and "b \<in> set bods"
  shows "contains (newBHNode (calculateBounds H bods padding)) (position (H b))"
proof (cases bods)
  case Nil
  with assms show ?thesis by simp
next
  case (Cons b0 rest)
  with assms(2) have m: "b = b0 \<or> b \<in> set rest" by auto
  show ?thesis
    using assms(1)
      fold_min_le_any[OF m, of "\<lambda>b. vx (position (H b))"]
      fold_min_le_any[OF m, of "\<lambda>b. vy (position (H b))"]
      fold_min_le_any[OF m, of "\<lambda>b. vz (position (H b))"]
      fold_max_ge_any[OF m, of "\<lambda>b. vx (position (H b))"]
      fold_max_ge_any[OF m, of "\<lambda>b. vy (position (H b))"]
      fold_max_ge_any[OF m, of "\<lambda>b. vz (position (H b))"]
    by (simp add: Cons calculateBounds_def contains_def newBHNode_def Let_def)
qed

lemma newBHNode_sel [simp]:
  "bounds (newBHNode bnds) = bnds" "isEmpty (newBHNode bnds)" "body (newBHNode bnds) = None"
  "children (newBHNode bnds) = replicate 8 None"
  by (simp_all add: newBHNode_def)

lemma buildInserts_coincident:
  assumes "position (H a) = position (H b)" and "contains (newBHNode bnds) (position (H a))"
  shows "buildInserts fuel H (a # b # rest) (newBHNode bnds) = None"
proof (cases fuel)
  case 0
  then show ?thesis by simp
next
  case (Suc n)
  let ?leaf = "BHNode (position (H a)) (mass (H a)) (Some a) (replicate 8 None) bnds False"
  have 1: "insertBody fuel H a (newBHNode bnds) = Some ?leaf"
    using assms(2) Suc by simp
  have "contains ?leaf (position (H b))" using assms by (simp add: contains_def)
  then have 2: "insertBody fuel H b ?leaf = None"
    using assms(1) by (intro insertBody_coincident[where a = a]) simp_all
  show ?thesis using 1 2 by simp
qed

lemma forcesLoop_values:
  "forcesLoop rand E H tree bods (forces, k) = (forces', k') \<Longrightarrow>
   (\<forall>b f. forces b = Some f \<longrightarrow>
      (case tree of Some t \<Rightarrow> f = calculateForce H t b (G E)
       | None \<Rightarrow> \<exists>kb. f = fst (calculateTotalForce rand E H b kb))) \<Longrightarrow>
   forces' b = Some f \<Longrightarrow>
   (case tree of Some t \<Rightarrow> f = calculateForce H t b (G E)
    | None \<Rightarrow> \<exists>kb. f = fst (calculateTotalForce rand E H b kb))"
proof (induction bods arbitrary: forces k)
  case Nil
  then show ?case by simp
next
  case (Cons a bods)
  show ?case
  proof (cases tree)
    case None
    obtain fa k1 where c: "calculateTotalForce rand E H a k = (fa, k1)"
      by (cases "calculateTotalForce rand E H a k")
    with Cons.prems None have r: "forcesLoop rand E H tree bods (forces(a \<mapsto> fa), k1) = (forces', k')"
      by simp
    have "\<forall>b f. (forces(a \<mapsto> fa)) b = Some f \<longrightarrow>
      (case tree of Some t \<Rightarrow> f = calculateForce H t b (G E)
       | None \<Rightarrow> \<exists>kb. f = fst (calculateTotalForce rand E H b kb))"
      using Cons.prems(2) None c by (auto intro: exI[of _ k])
    from Cons.IH[OF r this Cons.prems(3)] show ?thesis .
  next
    case (Some t)
    with Cons.prems have r: "forcesLoop rand E H tree bods
        (forces(a \<mapsto> calculateForce H t a (G E)), k) = (forces', k')" by simp
    have "\<forall>b f. (forces(a \<mapsto> calculateForce H t a (G E))) b = Some f \<longrightarrow>
      (case tree of Some t \<Rightarrow> f = calculateForce H t b (G E)
       | None \<Rightarrow> \<exists>kb. f = fst (calculateTotalForce rand E H b kb))"
      using Cons.prems(2) Some by auto
    from Cons.IH[OF r this Cons.prems(3)] show ?thesis .
  qed
qed

lemma computeForces_values:
  assumes "computeForces fuel rand E H k = Inr (forces, k')" and "forces b = Some f"
  shows "if useBarnesHut E \<and> 2 < length (bodies E)
         then \<exists>t. newBarnesHutTree fuel H (bodies E) (calculateBounds H (bodies E) 10)
                     (barnesHutTheta E) = Some t \<and> f = calculateForce H t b (G E)
         else \<exists>kb. f = fst (calculateTotalForce rand E H b kb)"
proof (cases "useBarnesHut E \<and> 2 < length (bodies E)")
  case True
  with assms(1) obtain t where
    t: "newBarnesHutTree fuel H (bodies E) (calculateBounds H (bodies E) 10) (barnesHutTheta E) = Some t"
    and fl: "forcesLoop rand E H (Some t) (bodies E) (Map.empty, k) = (forces, k')"
    by (auto simp: computeForces_def split: option.splits)
  from forcesLoop_values[OF fl _ assms(2)] have "f = calculateForce H t b (G E)" by simp
  with True t show ?thesis by simp
next
  case False
  with assms(1) have fl: "forcesLoop rand E H None (bodies E) (Map.empty, k) = (forces, k')"
    by (auto simp: computeForces_def)
  from forcesLoop_values[OF fl _ assms(2)] False show ?thesis by auto
qed


lemma vlength_axis_x: "vlength (Vector3 a 0 0) = \<bar>a\<bar>"
  by (simp add: vlength_def)


lemma vlength_axis_z: "vlength (Vector3 0 0 a) = \<bar>a\<bar>"
  by (simp add: vlength_def)

lemma starPlanet_forces:
  "computeForces 0 jitterDraws starPlanetEngine starPlanetHeap 0 =
     Inr ([0 \<mapsto> Vector3 1 0 0, 1 \<mapsto> Vector3 (-1) 0 0], 0)"
  by (simp add: computeForces_def starPlanetEngine_def starPlanetHeap_def calculateTotalForce_def
      calculateGravityForce_def subVectors_def lengthSq_def normalizeV_def normalizeDivisor_def
      divideScalar_def multiplyScalar_def addV_def vlength_axis_x)

lemma starPlanet_update:
  "update 0 jitterDraws starPlanetEngine (1/10) (starPlanetHeap, 0) = Inr (starPlanetAfter, 0)"
proof -
  have v: "velocityLoop [0 \<mapsto> Vector3 1 0 0, 1 \<mapsto> Vector3 (-1) 0 0] (1/10) [0, 1] starPlanetHeap
      = Inr (starPlanetHeap(1 := \<lparr>mass = 1, position = Vector3 10 0 0,
                velocity = Vector3 (-1/10) 0 1, isStatic = False\<rparr>))"
    by (simp add: starPlanetHeap_def divideScalar_def multiplyScalar_def addV_def)
  have p: "positionLoop (1/10) [0, 1] (starPlanetHeap(1 := \<lparr>mass = 1, position = Vector3 10 0 0,
                velocity = Vector3 (-1/10) 0 1, isStatic = False\<rparr>)) = starPlanetAfter"
    by (simp add: starPlanetHeap_def starPlanetAfter_def multiplyScalar_def addV_def)
  have b: "bodies starPlanetEngine = [0, 1]" by (simp add: starPlanetEngine_def)
  show ?thesis
    by (simp only: update_def prod.case sum.case starPlanet_forces b v p)
qed

section \<open>Lemmas about the octree\<close>

lemma subtreeBodies_sel:
  "subtreeBodies node = (case body node of Some b \<Rightarrow> [b] | None \<Rightarrow> childrenBodies (children node))"
  by (cases node) (simp split: option.split)

lemma wellFormed_sel:
  "wellFormed H node \<longleftrightarrow>
     (length (children node) = 8
      \<and> (isEmpty node \<longrightarrow> body node = None)
      \<and> (isEmpty node \<or> body node \<noteq> None \<longrightarrow> children node = replicate 8 None)
      \<and> (case body node of Some b \<Rightarrow> contains node (position (H b)) | None \<Rightarrow> True)
      \<and> (\<not> isEmpty node \<and> body node = None \<longrightarrow> childrenBodies (children node) \<noteq> [])
      \<and> wellFormedChildren H (bounds node) 0 (children node))"
  by (cases node) (simp split: option.split)

lemma childrenBodies_replicate_None [simp]: "childrenBodies (replicate n None) = []"
  by (induction n) simp_all

lemma wellFormedChildren_replicate_None [simp]: "wellFormedChildren H bnds i (replicate n None)"
  by (induction n arbitrary: i) simp_all

lemma wellFormedChildren_nth:
  "wellFormedChildren H bnds i chs \<longleftrightarrow>
     (\<forall>j < length chs. \<forall>c. chs ! j = Some c \<longrightarrow>
        bounds c = bounds (createChild (newBHNode bnds) (i + j)) \<and> \<not> isEmpty c \<and> wellFormed H c)"
proof (induction chs arbitrary: i)
  case Nil
  then show ?case by simp
next
  case (Cons x chs)
  show ?case
  proof (cases x)
    case None
    then show ?thesis by (simp add: Cons less_Suc_eq_0_disj) auto
  next
    case (Some c)
    then show ?thesis by (simp add: Cons less_Suc_eq_0_disj) auto
  qed
qed

lemma childrenBodies_update_None:
  "j < length chs \<Longrightarrow> chs ! j = None \<Longrightarrow>
   mset (childrenBodies (chs[j := Some c])) = mset (childrenBodies chs) + mset (subtreeBodies c)"
proof (induction chs arbitrary: j)
  case Nil
  then show ?case by simp
next
  case (Cons x chs)
  show ?case
  proof (cases j)
    case 0
    with Cons.prems show ?thesis by simp
  next
    case (Suc j')
    with Cons.prems have "j' < length chs" "chs ! j' = None" by simp_all
    from Cons.IH[OF this] Suc show ?thesis by (cases x) simp_all
  qed
qed

lemma childrenBodies_update_Some:
  "j < length chs \<Longrightarrow> chs ! j = Some c0 \<Longrightarrow>
   mset (childrenBodies (chs[j := Some c])) + mset (subtreeBodies c0) =
   mset (childrenBodies chs) + mset (subtreeBodies c)"
proof (induction chs arbitrary: j)
  case Nil
  then show ?case by simp
next
  case (Cons x chs)
  show ?case
  proof (cases j)
    case 0
    with Cons.prems show ?thesis by simp
  next
    case (Suc j')
    with Cons.prems have "j' < length chs" "chs ! j' = Some c0" by simp_all
    from Cons.IH[OF this] Suc show ?thesis by (cases x) simp_all
  qed
qed

lemma wellFormed_createChild: "wellFormed H (createChild node i)"
  by (simp add: wellFormed_sel createChild_def Let_def)

lemma subtreeBodies_createChild: "subtreeBodies (createChild node i) = []"
  by (simp add: subtreeBodies_sel createChild_def Let_def)

lemma createChild_newBHNode: "createChild (newBHNode (bounds node)) i = createChild node i"
  by (rule createChild_bounds) simp

lemma wellFormedChildren_nthD:
  assumes "wellFormedChildren H bnds i chs" and "j < length chs" and "chs ! j = Some c"
  shows "bounds c = bounds (createChild (newBHNode bnds) (i + j))" and "\<not> isEmpty c"
    and "wellFormed H c"
  using assms unfolding wellFormedChildren_nth by blast+

lemma childAt_wellFormed:
  assumes "wellFormed H node" and "i < 8"
  shows "wellFormed H (childAt node i)" and "bounds (childAt node i) = bounds (createChild node i)"
proof -
  from assms have len: "i < length (children node)"
    and wfc: "wellFormedChildren H (bounds node) 0 (children node)"
    by (simp_all add: wellFormed_sel)
  show "wellFormed H (childAt node i)"
  proof (cases "children node ! i")
    case None
    then show ?thesis by (simp add: childAt_def wellFormed_createChild)
  next
    case (Some c0)
    with wellFormedChildren_nthD(3)[OF wfc len Some] show ?thesis by (simp add: childAt_def)
  qed
  show "bounds (childAt node i) = bounds (createChild node i)"
  proof (cases "children node ! i")
    case None
    then show ?thesis by (simp add: childAt_def)
  next
    case (Some c0)
    with wellFormedChildren_nthD(1)[OF wfc len Some] show ?thesis
      by (simp add: childAt_def createChild_newBHNode)
  qed
qed

lemma childAt_update_mset:
  assumes "length (children node) = 8" and "i < 8"
    and "mset (subtreeBodies c') = mset (subtreeBodies (childAt node i)) + M"
  shows "mset (childrenBodies ((children node)[i := Some c'])) =
     mset (childrenBodies (children node)) + M"
proof (cases "children node ! i")
  case None
  from assms have len: "i < length (children node)" by simp
  from None assms(3) have "mset (subtreeBodies c') = M"
    by (simp add: childAt_def subtreeBodies_createChild)
  with childrenBodies_update_None[OF len None, of c'] show ?thesis by simp
next
  case (Some c0)
  from assms have len: "i < length (children node)" by simp
  from Some assms(3) have "mset (subtreeBodies c') = mset (subtreeBodies c0) + M"
    by (simp add: childAt_def)
  with childrenBodies_update_Some[OF len Some, of c']
  have "mset (childrenBodies ((children node)[i := Some c'])) + mset (subtreeBodies c0) =
      (mset (childrenBodies (children node)) + M) + mset (subtreeBodies c0)"
    by (simp add: ac_simps)
  then show ?thesis by (simp only: add_right_cancel)
qed

lemma wellFormedChildren_update:
  assumes "wellFormedChildren H bnds 0 chs" and "i < length chs"
    and "bounds c = bounds (createChild (newBHNode bnds) i)" and "\<not> isEmpty c" and "wellFormed H c"
  shows "wellFormedChildren H bnds 0 (chs[i := Some c])"
  unfolding wellFormedChildren_nth
proof (intro allI impI)
  fix j c'
  assume j: "j < length (chs[i := Some c])" and e: "chs[i := Some c] ! j = Some c'"
  show "bounds c' = bounds (createChild (newBHNode bnds) (0 + j)) \<and> \<not> isEmpty c' \<and> wellFormed H c'"
  proof (cases "j = i")
    case True
    with e assms(2) have "c' = c" by simp
    with assms True show ?thesis by simp
  next
    case False
    with e have "chs ! j = Some c'" by simp
    moreover from j have "j < length chs" by simp
    ultimately show ?thesis using wellFormedChildren_nthD[OF assms(1)] by simp
  qed
qed

lemma mset_plus_single_nonempty: "mset xs = M + {#b#} \<Longrightarrow> xs \<noteq> []"
  by auto

lemma insertBody_wellFormed:
  "insertBody fuel H b node = Some node' \<Longrightarrow> wellFormed H node \<Longrightarrow>
   wellFormed H node' \<and> bounds node' = bounds node
   \<and> (if contains node (position (H b))
       then \<not> isEmpty node' \<and> mset (subtreeBodies node') = mset (subtreeBodies node) + {#b#}
       else node' = node)"
proof (induction fuel arbitrary: b node node')
  case 0
  then show ?case by simp
next
  case (Suc fuel)
  let ?p = "position (H b)"
  note wf = Suc.prems(2)
  from wf have len: "length (children node) = 8" by (simp add: wellFormed_sel)
  show ?case
  proof (cases "contains node ?p")
    case False
    with Suc.prems show ?thesis by simp
  next
    case cont: True
    show ?thesis
    proof (cases "isEmpty node")
      case True
      with wf have e: "body node = None" "children node = replicate 8 None"
        by (simp_all add: wellFormed_sel)
      from Suc.prems(1) cont True have n': "node' =
          BHNode ?p (mass (H b)) (Some b) (children node) (bounds node) False" by simp
      have "contains node' ?p" using cont unfolding n' by (simp add: contains_def)
      then show ?thesis using cont e
        by (simp add: n' wellFormed_sel subtreeBodies_sel)
    next
      case ne: False
      show ?thesis
      proof (cases "body node")
        case None
        let ?o = "getOctant node ?p"
        let ?c = "childAt node ?o"
        have o8: "?o < 8" by (rule getOctant_less)
        from Suc.prems(1) cont ne None obtain c' where
          ins: "insertBody fuel H b ?c = Some c'" and n': "node' = setChild node ?o c'"
          by (auto simp: Let_def split: option.splits)
        note wfc = childAt_wellFormed(1)[OF wf o8] and bc = childAt_wellFormed(2)[OF wf o8]
        have cc: "contains ?c ?p"
          using bounds_createChild_contains[OF cont] contains_bounds[OF bc] by simp
        from Suc.IH[OF ins wfc] cc have wf': "wellFormed H c'" and b': "bounds c' = bounds ?c"
          and ne': "\<not> isEmpty c'"
          and ms: "mset (subtreeBodies c') = mset (subtreeBodies ?c) + {#b#}" by simp_all
        from wf have wfch: "wellFormedChildren H (bounds node) 0 (children node)"
          by (simp add: wellFormed_sel)
        have wfch': "wellFormedChildren H (bounds node) 0 ((children node)[?o := Some c'])"
          using wfch o8 len b' bc ne' wf'
          by (intro wellFormedChildren_update) (simp_all add: createChild_newBHNode)
        have msn: "mset (childrenBodies ((children node)[?o := Some c'])) =
            mset (childrenBodies (children node)) + {#b#}"
          using len o8 ms by (rule childAt_update_mset)
        have nonempty: "childrenBodies ((children node)[?o := Some c']) \<noteq> []"
          using msn by (rule mset_plus_single_nonempty)
        have 1: "wellFormed H node'"
          using ne None len wfch' nonempty by (simp add: n' wellFormed_sel)
        have 2: "mset (subtreeBodies node') = mset (subtreeBodies node) + {#b#}"
          using None msn by (simp add: n' subtreeBodies_sel)
        show ?thesis using 1 2 cont ne by (simp add: n')
      next
        case (Some a)
        let ?pa = "position (H a)"
        let ?oa = "getOctant node ?pa"
        let ?ob = "getOctant node ?p"
        let ?c0 = "createChild node ?oa"
        let ?n1 = "clearBody node"
        from wf Some have chs: "children node = replicate 8 None" and conta: "contains node ?pa"
          by (simp_all add: wellFormed_sel)
        have oa8: "?oa < 8" and ob8: "?ob < 8" by (rule getOctant_less)+
        have c0: "childAt ?n1 ?oa = ?c0" using chs oa8 by (rule childAt_empty_slots)
        from Suc.prems(1) cont ne Some c0 obtain c1 where
          ins1: "insertBody fuel H a ?c0 = Some c1" by (auto simp: Let_def split: option.splits)
        let ?n2 = "setChild ?n1 ?oa c1"
        let ?cb = "childAt ?n2 ?ob"
        from Suc.prems(1) cont ne Some c0 ins1 obtain c2 where
          ins2: "insertBody fuel H b ?cb = Some c2" and n': "node' = setChild ?n2 ?ob c2"
          by (auto simp: Let_def split: option.splits)
        have "contains ?c0 ?pa" using conta by (rule bounds_createChild_contains)
        with Suc.IH[OF ins1 wellFormed_createChild] have wf1: "wellFormed H c1"
          and b1: "bounds c1 = bounds ?c0" and ne1: "\<not> isEmpty c1"
          and ms1: "mset (subtreeBodies c1) = {#a#}"
          by (simp_all add: subtreeBodies_createChild)
        have cb: "?cb = (if ?ob = ?oa then c1 else createChild node ?ob)"
          using chs oa8 ob8 by (simp add: childAt_def)
        have wfcb: "wellFormed H ?cb" using wf1 by (simp add: cb wellFormed_createChild)
        have bcb: "bounds ?cb = bounds (createChild node ?ob)" using b1 by (simp add: cb)
        have ccb: "contains ?cb ?p"
          using bounds_createChild_contains[OF cont] contains_bounds[OF bcb] by simp
        from Suc.IH[OF ins2 wfcb] ccb have wf2: "wellFormed H c2" and b2: "bounds c2 = bounds ?cb"
          and ne2: "\<not> isEmpty c2"
          and ms2: "mset (subtreeBodies c2) = mset (subtreeBodies ?cb) + {#b#}" by simp_all
        let ?chs' = "(replicate 8 None)[?oa := Some c1, ?ob := Some c2]"
        have wfch1: "wellFormedChildren H (bounds node) 0 ((replicate 8 None)[?oa := Some c1])"
          using oa8 b1 ne1 wf1
          by (intro wellFormedChildren_update) (simp_all add: createChild_newBHNode)
        have wfch': "wellFormedChildren H (bounds node) 0 ?chs'"
          using ob8 b2 bcb ne2 wf2
          by (intro wellFormedChildren_update[OF wfch1]) (simp_all add: createChild_newBHNode)
        have ms2': "mset (subtreeBodies c2) = (if ?ob = ?oa then {#a#} else {#}) + {#b#}"
          unfolding ms2 cb using ms1 by (simp add: subtreeBodies_createChild)
        have msn: "mset (childrenBodies ?chs') = {#a#} + {#b#}"
        proof (cases "?ob = ?oa")
          case True
          have "mset (childrenBodies ((replicate 8 None)[?oa := Some c2])) =
              mset (childrenBodies (replicate 8 None)) + mset (subtreeBodies c2)"
            using oa8 by (intro childrenBodies_update_None) simp_all
          then show ?thesis using True ms2' by simp
        next
          case False
          have 1: "mset (childrenBodies ((replicate 8 None)[?oa := Some c1])) =
              mset (childrenBodies (replicate 8 None)) + mset (subtreeBodies c1)"
            using oa8 by (intro childrenBodies_update_None) simp_all
          have 2: "mset (childrenBodies ?chs') =
              mset (childrenBodies ((replicate 8 None)[?oa := Some c1])) + mset (subtreeBodies c2)"
            using ob8 oa8 False by (intro childrenBodies_update_None) simp_all
          show ?thesis using 1 2 ms1 ms2' False by simp
        qed
        then have nonempty: "childrenBodies ?chs' \<noteq> []" by auto
        have 1: "wellFormed H node'"
          using ne chs wfch' nonempty by (simp add: n' wellFormed_sel)
        have 2: "mset (subtreeBodies node') = mset (subtreeBodies node) + {#b#}"
          using Some chs msn by (simp add: n' subtreeBodies_sel)
        show ?thesis using 1 2 cont ne by (simp add: n')
      qed
    qed
  qed
qed

lemma buildInserts_wellFormed:
  "buildInserts fuel H bods rt = Some rt' \<Longrightarrow> wellFormed H rt \<Longrightarrow>
   wellFormed H rt' \<and> bounds rt' = bounds rt
   \<and> mset (subtreeBodies rt') =
       mset (subtreeBodies rt) + mset (filter (\<lambda>b. contains rt (position (H b))) bods)"
proof (induction bods arbitrary: rt)
  case Nil
  then show ?case by simp
next
  case (Cons b bods)
  from Cons.prems(1) obtain rt1 where i1: "insertBody fuel H b rt = Some rt1"
    and r: "buildInserts fuel H bods rt1 = Some rt'" by (auto split: option.splits)
  from insertBody_wellFormed[OF i1 Cons.prems(2)] have wf1: "wellFormed H rt1"
    and b1: "bounds rt1 = bounds rt"
    and m1: "mset (subtreeBodies rt1) =
       mset (subtreeBodies rt) + (if contains rt (position (H b)) then {#b#} else {#})"
    by (auto split: if_splits)
  have c: "contains rt1 p = contains rt p" for p by (rule contains_bounds[OF b1])
  from Cons.IH[OF r wf1] show ?case by (simp add: b1 m1 c)
qed

lemma updateCenterOfMass_fields:
  "body (updateCenterOfMass H node) = body node \<and> isEmpty (updateCenterOfMass H node) = isEmpty node
   \<and> bounds (updateCenterOfMass H node) = bounds node"
  by (cases node) (simp split: option.split add: case_prod_beta)

lemma updateCenterOfMass_leaf:
  "\<not> isEmpty node \<Longrightarrow> body node = Some b \<Longrightarrow>
   updateCenterOfMass H node =
     BHNode (position (H b)) (mass (H b)) (Some b) (children node) (bounds node) False"
  by (cases node) simp

lemma updateCenterOfMass_empty: "isEmpty node \<Longrightarrow> updateCenterOfMass H node = node"
  by (cases node) simp

lemma updateCenterOfMass_bodies:
  "subtreeBodies (updateCenterOfMass H node) = subtreeBodies node"
  "childrenBodies (fst (updateChildren H chs tm ws)) = childrenBodies chs"
  by (induction H node and H chs tm ws rule: updateCenterOfMass_updateChildren.induct)
     (simp_all split: option.split add: Let_def case_prod_beta)

lemma updateChildren_length: "length (fst (updateChildren H chs tm ws)) = length chs"
proof (induction chs arbitrary: tm ws)
  case Nil
  then show ?case by simp
next
  case (Cons a chs)
  then show ?case by (cases a) (simp_all add: Let_def case_prod_beta)
qed

lemma wellFormed_within:
  "wellFormed H node \<longrightarrow> (\<forall>b \<in> set (subtreeBodies node). contains node (position (H b)))"
  "wellFormedChildren H bnds i chs \<longrightarrow>
     (\<forall>b \<in> set (childrenBodies chs). contains (newBHNode bnds) (position (H b)))"
proof (induction H node and H bnds i chs rule: wellFormed_wellFormedChildren.induct)
  case (1 H com tm bd chs bnds emp)
  show ?case
  proof (cases bd)
    case None
    from 1 None show ?thesis by (simp add: contains_def)
  next
    case (Some b)
    then show ?thesis by (simp add: contains_def)
  qed
next
  case (2 H bnds i)
  then show ?case by simp
next
  case (3 H bnds i rest)
  then show ?case by simp
next
  case (4 H bnds i c rest)
  show ?case
  proof (intro impI ballI)
    fix b
    assume wf: "wellFormedChildren H bnds i (Some c # rest)"
      and b: "b \<in> set (childrenBodies (Some c # rest))"
    from b have "b \<in> set (subtreeBodies c) \<or> b \<in> set (childrenBodies rest)" by simp
    then show "contains (newBHNode bnds) (position (H b))"
    proof
      assume "b \<in> set (subtreeBodies c)"
      with 4(1) wf have "contains c (position (H b))" by simp
      moreover from wf have "bounds c = bounds (createChild (newBHNode bnds) i)" by simp
      ultimately have "contains (createChild (newBHNode bnds) i) (position (H b))"
        using contains_bounds by blast
      then show ?thesis by (rule contains_createChild_parent)
    next
      assume "b \<in> set (childrenBodies rest)"
      with 4(2) wf show ?thesis by simp
    qed
  qed
qed

lemma updateCenterOfMass_wellFormed:
  "wellFormed H node \<longrightarrow> wellFormed H (updateCenterOfMass H node)"
  "\<forall>bnds i. wellFormedChildren H bnds i chs \<longrightarrow>
      wellFormedChildren H bnds i (fst (updateChildren H chs tm ws))"
proof (induction H node and H chs tm ws rule: updateCenterOfMass_updateChildren.induct)
  case (1 H com tm bd chs bnds emp)
  show ?case
  proof (cases "emp \<or> bd \<noteq> None")
    case True
    then show ?thesis by (auto simp: contains_def)
  next
    case False
    with 1 show ?thesis
      by (simp add: case_prod_beta updateChildren_length updateCenterOfMass_bodies)
  qed
next
  case (2 H totalMass' weightedSum)
  then show ?case by simp
next
  case (3 H rest totalMass' weightedSum)
  then show ?case by (simp add: case_prod_beta)
next
  case (4 H child rest totalMass' weightedSum)
  then show ?case
    by (simp add: case_prod_beta Let_def updateCenterOfMass_fields)
qed

lemma aggregatedChildren_replicate_None [simp]: "aggregatedChildren H (replicate n None)"
  by (induction n) simp_all

lemma massSum_simps [simp]:
  "massSum H [] = 0" "massSum H (b # bs) = mass (H b) + massSum H bs"
  "massSum H (xs @ ys) = massSum H xs + massSum H ys"
  by (simp_all add: massSum_def)

lemma weightedPositions_Nil [simp]: "weightedPositions H [] = Vector3 0 0 0"
  by (simp add: weightedPositions_def)

lemma weightedPositions_single [simp]:
  "weightedPositions H [b] = multiplyScalar (position (H b)) (mass (H b))"
  by (simp add: weightedPositions_def multiplyScalar_def)

lemma weightedPositions_append:
  "weightedPositions H (xs @ ys) = addV (weightedPositions H xs) (weightedPositions H ys)"
  by (simp add: weightedPositions_def addV_def)

lemma addV_assoc: "addV (addV a b) c = addV a (addV b c)"
  by (simp add: addV_def)

lemma addV_commute: "addV a b = addV b a"
  by (simp add: addV_def)

lemma addV_zero_right [simp]: "addV v (Vector3 0 0 0) = v"
  by (cases v) (simp add: addV_def)

lemma massSum_pos: "bs \<noteq> [] \<Longrightarrow> \<forall>b \<in> set bs. 0 < mass (H b) \<Longrightarrow> 0 < massSum H bs"
proof (induction bs)
  case Nil
  then show ?case by simp
next
  case (Cons b bs)
  show ?case
  proof (cases "bs = []")
    case True
    with Cons.prems show ?thesis by simp
  next
    case False
    with Cons have "0 < massSum H bs" by simp
    with Cons.prems show ?thesis by simp
  qed
qed

lemma multiplyScalar_divideScalar: "m \<noteq> 0 \<Longrightarrow> multiplyScalar (divideScalar v m) m = v"
  by (cases v) (simp add: multiplyScalar_def divideScalar_def)

lemma updateCenterOfMass_sums:
  "wellFormed H node \<longrightarrow> (\<forall>b \<in> set (subtreeBodies node). 0 < mass (H b)) \<longrightarrow> \<not> isEmpty node \<longrightarrow>
     totalMass (updateCenterOfMass H node) = massSum H (subtreeBodies node)
     \<and> multiplyScalar (centerOfMass (updateCenterOfMass H node))
          (totalMass (updateCenterOfMass H node)) = weightedPositions H (subtreeBodies node)"
  "\<forall>bnds i. wellFormedChildren H bnds i chs \<longrightarrow> (\<forall>b \<in> set (childrenBodies chs). 0 < mass (H b)) \<longrightarrow>
     snd (updateChildren H chs tm ws) =
       (tm + massSum H (childrenBodies chs), addV ws (weightedPositions H (childrenBodies chs)))"
proof (induction H node and H chs tm ws rule: updateCenterOfMass_updateChildren.induct)
  case (1 H com tm bd chs bnds emp)
  show ?case
  proof (intro impI)
    assume wf: "wellFormed H (BHNode com tm bd chs bnds emp)"
      and pos: "\<forall>b \<in> set (subtreeBodies (BHNode com tm bd chs bnds emp)). 0 < mass (H b)"
      and ne: "\<not> isEmpty (BHNode com tm bd chs bnds emp)"
    show "totalMass (updateCenterOfMass H (BHNode com tm bd chs bnds emp)) =
        massSum H (subtreeBodies (BHNode com tm bd chs bnds emp))
      \<and> multiplyScalar (centerOfMass (updateCenterOfMass H (BHNode com tm bd chs bnds emp)))
          (totalMass (updateCenterOfMass H (BHNode com tm bd chs bnds emp))) =
        weightedPositions H (subtreeBodies (BHNode com tm bd chs bnds emp))"
    proof (cases bd)
      case (Some b)
      with ne show ?thesis by simp
    next
      case None
      from wf None ne have wfc: "wellFormedChildren H bnds 0 chs" and nonempty: "childrenBodies chs \<noteq> []"
        by simp_all
      from pos None have pos': "\<forall>b \<in> set (childrenBodies chs). 0 < mass (H b)" by simp
      from 1 ne None wfc pos' have s: "snd (updateChildren H chs 0 (Vector3 0 0 0)) =
          (massSum H (childrenBodies chs), weightedPositions H (childrenBodies chs))"
        by (auto simp add: addV_zero_left)
      have mp: "0 < massSum H (childrenBodies chs)" using nonempty pos' by (rule massSum_pos)
      obtain chs' where u: "updateChildren H chs 0 (Vector3 0 0 0) =
          (chs', massSum H (childrenBodies chs), weightedPositions H (childrenBodies chs))"
        using s by (cases "updateChildren H chs 0 (Vector3 0 0 0)") simp
      show ?thesis using ne None mp
        by (simp add: u multiplyScalar_divideScalar)
    qed
  qed
next
  case (2 H totalMass' weightedSum)
  then show ?case by simp
next
  case (3 H rest totalMass' weightedSum)
  then show ?case by (auto simp add: case_prod_beta)
next
  case (4 H child rest totalMass' weightedSum)
  show ?case
  proof (intro allI impI)
    fix bnds i
    assume wf: "wellFormedChildren H bnds i (Some child # rest)"
      and pos: "\<forall>b \<in> set (childrenBodies (Some child # rest)). 0 < mass (H b)"
    from wf have ne: "\<not> isEmpty child" and wfc: "wellFormed H child"
      and wfr: "wellFormedChildren H bnds (Suc i) rest" by simp_all
    from pos have pc: "\<forall>b \<in> set (subtreeBodies child). 0 < mass (H b)"
      and pr: "\<forall>b \<in> set (childrenBodies rest). 0 < mass (H b)" by simp_all
    let ?c' = "updateCenterOfMass H child"
    from 4(1)[OF ne] wfc pc ne have tm: "totalMass ?c' = massSum H (subtreeBodies child)"
      and cm: "multiplyScalar (centerOfMass ?c') (totalMass ?c') = weightedPositions H (subtreeBodies child)"
      by blast+
    from 4(2)[OF ne refl] wfr pr have "snd (updateChildren H rest (totalMass' + totalMass ?c')
           (addV weightedSum (multiplyScalar (centerOfMass ?c') (totalMass ?c')))) =
        (totalMass' + totalMass ?c' + massSum H (childrenBodies rest),
         addV (addV weightedSum (multiplyScalar (centerOfMass ?c') (totalMass ?c')))
           (weightedPositions H (childrenBodies rest)))" by blast
    then show "snd (updateChildren H (Some child # rest) totalMass' weightedSum) =
       (totalMass' + massSum H (childrenBodies (Some child # rest)),
        addV weightedSum (weightedPositions H (childrenBodies (Some child # rest))))"
      using ne cm[unfolded tm]
      by (simp add: case_prod_beta Let_def tm weightedPositions_append addV_assoc)
  qed
qed

lemma updateCenterOfMass_aggregated:
  "wellFormed H node \<longrightarrow> (\<forall>b \<in> set (subtreeBodies node). 0 < mass (H b)) \<longrightarrow>
     aggregated H (updateCenterOfMass H node)"
  "\<forall>bnds i. wellFormedChildren H bnds i chs \<longrightarrow> (\<forall>b \<in> set (childrenBodies chs). 0 < mass (H b)) \<longrightarrow>
     aggregatedChildren H (fst (updateChildren H chs tm ws))"
proof (induction H node and H chs tm ws rule: updateCenterOfMass_updateChildren.induct)
  case (1 H com tm bd chs bnds emp)
  let ?n = "BHNode com tm bd chs bnds emp"
  show ?case
  proof (intro impI)
    assume wf: "wellFormed H ?n" and pos: "\<forall>b \<in> set (subtreeBodies ?n). 0 < mass (H b)"
    have wf': "wellFormed H (updateCenterOfMass H ?n)"
      using wf updateCenterOfMass_wellFormed(1) by blast
    have within: "list_all (\<lambda>b. contains (updateCenterOfMass H ?n) (position (H b)))
        (subtreeBodies (updateCenterOfMass H ?n))"
      using wellFormed_within(1)[of H "updateCenterOfMass H ?n"] wf'
      by (simp add: list_all_iff)
    show "aggregated H (updateCenterOfMass H ?n)"
    proof (cases emp)
      case True
      with wf have "bd = None" "chs = replicate 8 None" by simp_all
      with True show ?thesis by simp
    next
      case ne: False
      show ?thesis
      proof (cases bd)
        case (Some b)
        with wf ne have "chs = replicate 8 None" by simp
        with within Some ne show ?thesis by simp
      next
        case None
        from wf None ne have wfc: "wellFormedChildren H bnds 0 chs"
          and nonempty: "childrenBodies chs \<noteq> []" by simp_all
        from pos None have pos': "\<forall>b \<in> set (childrenBodies chs). 0 < mass (H b)" by simp
        from updateCenterOfMass_sums(2)[of H chs 0 "Vector3 0 0 0"] wfc pos'
        have s: "snd (updateChildren H chs 0 (Vector3 0 0 0)) =
            (massSum H (childrenBodies chs), weightedPositions H (childrenBodies chs))"
          by (auto simp add: addV_zero_left)
        have mp: "0 < massSum H (childrenBodies chs)" using nonempty pos' by (rule massSum_pos)
        obtain chs' where u: "updateChildren H chs 0 (Vector3 0 0 0) =
            (chs', massSum H (childrenBodies chs), weightedPositions H (childrenBodies chs))"
          using s by (cases "updateChildren H chs 0 (Vector3 0 0 0)") simp
        have cb: "childrenBodies chs' = childrenBodies chs"
          using updateCenterOfMass_bodies(2)[of H chs 0 "Vector3 0 0 0"] by (simp add: u)
        from 1 ne None wfc pos' have ac: "aggregatedChildren H chs'" by (auto simp add: u)
        have un: "updateCenterOfMass H ?n =
            BHNode (divideScalar (weightedPositions H (childrenBodies chs)) (massSum H (childrenBodies chs)))
              (massSum H (childrenBodies chs)) None chs' bnds False"
          using ne None mp by (simp add: u)
        show ?thesis
          using within ac unfolding un by (simp add: cb massCenter_def)
      qed
    qed
  qed
next
  case (2 H totalMass' weightedSum)
  then show ?case by simp
next
  case (3 H rest totalMass' weightedSum)
  then show ?case by (auto simp add: case_prod_beta)
next
  case (4 H child rest totalMass' weightedSum)
  then show ?case by (auto simp add: case_prod_beta Let_def)
qed

lemma sumV_Nil [simp]: "sumV [] = Vector3 0 0 0"
  by (simp add: sumV_def)








lemma aggregated_leaf:
  "aggregated H node \<Longrightarrow> body node = Some other \<Longrightarrow>
   totalMass node = mass (H other) \<and> centerOfMass node = position (H other)"
  by (cases node) simp



lemma exampleTree_built:
  "buildTree 3 energyHeap [0, 1] (newBHNode testBox) = Some exampleTree"
  by code_simp

lemma wellFormed_newBHNode: "wellFormed H (newBHNode bnds)"
  by (simp add: wellFormed_sel)

lemma subtreeBodies_newBHNode: "subtreeBodies (newBHNode bnds) = []"
  by (simp add: subtreeBodies_sel)

lemma buildTree_wellFormed:
  assumes "buildTree fuel H bods (newBHNode bnds) = Some tree"
  shows "wellFormed H tree" and "bounds tree = bnds"
    and "mset (subtreeBodies tree) =
         mset (filter (\<lambda>b. contains (newBHNode bnds) (position (H b))) bods)"
proof -
  from assms obtain rt where bi: "buildInserts fuel H bods (newBHNode bnds) = Some rt"
    and t: "tree = updateCenterOfMass H rt"
    by (auto simp: buildTree_def split: option.splits)
  note w = buildInserts_wellFormed[OF bi wellFormed_newBHNode]
  from w show "wellFormed H tree" using updateCenterOfMass_wellFormed(1) t by blast
  from w show "bounds tree = bnds" by (simp add: t updateCenterOfMass_fields)
  from w show "mset (subtreeBodies tree) =
         mset (filter (\<lambda>b. contains (newBHNode bnds) (position (H b))) bods)"
    by (simp add: t updateCenterOfMass_bodies subtreeBodies_newBHNode)
qed





lemma starTree_built:
  "newBarnesHutTree 2 starHeap [0, 1] (calculateBounds starHeap [0, 1] 10) 0 = Some starTree"
  by code_simp

lemma starTree_force: "calculateForce starHeap starTree 0 1 = Vector3 0 0 0"
  by (simp add: calculateForce_def starTree_def starHeap_def bodyAt_def subVectors_def
      vlength_axis_x)

lemma star_direct_force:
  "calculateTotalForce jitterDraws (exampleEngine\<lparr>bodies := [0, 1]\<rparr>) starHeap 0 0
     = (Vector3 4000 0 0, 0)"
  by (simp add: calculateTotalForce_def calculateGravityForce_def exampleEngine_def starHeap_def
      bodyAt_def subVectors_def lengthSq_def vlength_axis_x normalizeV_def
      normalizeDivisor_def divideScalar_def multiplyScalar_def addV_def)



section \<open>The claims\<close>

text \<open>
  Claim C5. For two bodies \<open>i\<close> and \<open>j\<close> the direct pairwise force on \<open>i\<close> is
  \<open>normalize(p\<^sub>j - p\<^sub>i) * G * m\<^sub>i * m\<^sub>j / max(|p\<^sub>j - p\<^sub>i|\<^sup>2, 0.1\<^sup>2)\<close>; when the squared
  distance is below 0.001 the direction is the normalised vector of three random
  components \<open>(Math.random() - 0.5) * 0.1\<close>, each in \<open>[-0.05, 0.05]\<close>, scaled by the same
  clamped magnitude, and three random numbers are consumed. A direction that is not the
  zero vector has length 1 after normalisation (the random one is the zero vector only
  when all three draws are exactly 0.5). Masses 10 and 5 at distance 10 with \<open>G = 1\<close> give
  a force of magnitude 0.5.
\<close>

theorem direct_pairwise_force:
  "calculateGravityForce rand E body1 body2 k =
     (if lengthSq (subVectors (position body2) (position body1)) < 0.001
      then (multiplyScalar
              (normalizeV (Vector3 ((rand k - 0.5) * 0.1) ((rand (k + 1) - 0.5) * 0.1)
                             ((rand (k + 2) - 0.5) * 0.1)))
              (G E * (mass body1 * mass body2)
                 / max (lengthSq (subVectors (position body2) (position body1))) (0.1\<^sup>2)),
            k + 3)
      else (multiplyScalar
              (normalizeV (subVectors (position body2) (position body1)))
              (G E * (mass body1 * mass body2)
                 / max (lengthSq (subVectors (position body2) (position body1))) (0.1\<^sup>2)),
            k))
   \<and> (\<not> lengthSq (subVectors (position body2) (position body1)) < 0.001 \<longrightarrow>
        vlength (normalizeV (subVectors (position body2) (position body1))) = 1)
   \<and> (0 \<le> rand k \<and> rand k \<le> 1 \<longrightarrow> \<bar>(rand k - 0.5) * 0.1\<bar> \<le> 0.05)
   \<and> (Vector3 ((rand k - 0.5) * 0.1) ((rand (k + 1) - 0.5) * 0.1) ((rand (k + 2) - 0.5) * 0.1)
          \<noteq> Vector3 0 0 0 \<longrightarrow>
        vlength (normalizeV (Vector3 ((rand k - 0.5) * 0.1) ((rand (k + 1) - 0.5) * 0.1)
                               ((rand (k + 2) - 0.5) * 0.1))) = 1)
   \<and> (G E = 1 \<and> mass body1 = 10 \<and> mass body2 = 5
        \<and> vlength (subVectors (position body2) (position body1)) = 10 \<longrightarrow>
        vlength (fst (calculateGravityForce rand E body1 body2 k)) = 0.5)"
proof -
  let ?d = "subVectors (position body2) (position body1)"
  have eq: "(0.1::real)\<^sup>2 = 0.1 * 0.1" by (simp add: power2_eq_square)
  have A: "calculateGravityForce rand E body1 body2 k =
     (if lengthSq ?d < 0.001
      then (multiplyScalar
              (normalizeV (Vector3 ((rand k - 0.5) * 0.1) ((rand (k + 1) - 0.5) * 0.1)
                             ((rand (k + 2) - 0.5) * 0.1)))
              (G E * (mass body1 * mass body2) / max (lengthSq ?d) (0.1\<^sup>2)),
            k + 3)
      else (multiplyScalar (normalizeV ?d)
              (G E * (mass body1 * mass body2) / max (lengthSq ?d) (0.1\<^sup>2)),
            k))"
    unfolding eq by (simp add: calculateGravityForce_def Let_def)
  have B: "\<not> lengthSq ?d < 0.001 \<longrightarrow> vlength (normalizeV ?d) = 1"
  proof
    assume "\<not> lengthSq ?d < 0.001"
    then have "?d \<noteq> Vector3 0 0 0" by (auto simp: lengthSq_def)
    then show "vlength (normalizeV ?d) = 1" by (rule vlength_normalizeV)
  qed
  have C: "0 \<le> rand k \<and> rand k \<le> 1 \<longrightarrow> \<bar>(rand k - 0.5) * 0.1\<bar> \<le> 0.05"
    by (simp add: abs_if split: if_splits)
  have D: "G E = 1 \<and> mass body1 = 10 \<and> mass body2 = 5 \<and> vlength ?d = 10 \<longrightarrow>
        vlength (fst (calculateGravityForce rand E body1 body2 k)) = 0.5"
  proof
    assume h: "G E = 1 \<and> mass body1 = 10 \<and> mass body2 = 5 \<and> vlength ?d = 10"
    then have l: "lengthSq ?d = 100" using vlength_sq[of ?d] by simp
    then have nz: "?d \<noteq> Vector3 0 0 0" by (auto simp: lengthSq_def)
    show "vlength (fst (calculateGravityForce rand E body1 body2 k)) = 0.5"
      using h l vlength_normalizeV[OF nz]
      by (simp add: A vlength_multiplyScalar power2_eq_square)
  qed
  show ?thesis using A B C D vlength_normalizeV by blast
qed



theorem direct_pairwise_force_witness:
  "vlength (subVectors (position (bodyAt 5 (Vector3 10 0 0))) (position (bodyAt 10 (Vector3 0 0 0)))) = 10
   \<and> calculateGravityForce (\<lambda>_. 3/4) exampleEngine (bodyAt 10 (Vector3 0 0 0))
      (bodyAt 5 (Vector3 10 0 0)) 0 = (Vector3 (1/2) 0 0, 0)
   \<and> vlength (normalizeV (Vector3 10 0 0)) = 1
   \<and> vlength (normalizeV (Vector3 (1/40) (1/40) (1/40))) = 1
   \<and> vlength (fst (calculateGravityForce (\<lambda>_. 3/4) exampleEngine (bodyAt 10 (Vector3 0 0 0))
      (bodyAt 5 (Vector3 10 0 0)) 0)) = 0.5"
proof -
  let ?b1 = "bodyAt 10 (Vector3 0 0 0)" and ?b2 = "bodyAt 5 (Vector3 10 0 0)"
  note T = direct_pairwise_force [of "\<lambda>_. 3/4" exampleEngine ?b1 ?b2 0]
  have d: "subVectors (position ?b2) (position ?b1) = Vector3 10 0 0"
    by (simp add: bodyAt_def subVectors_def)
  have h1: "G exampleEngine = 1 \<and> mass ?b1 = 10 \<and> mass ?b2 = 5
      \<and> vlength (subVectors (position ?b2) (position ?b1)) = 10"
    by (simp add: d) (simp add: exampleEngine_def bodyAt_def vlength_def)
  have h2: "\<not> lengthSq (subVectors (position ?b2) (position ?b1)) < 0.001"
    by (simp add: d lengthSq_def)
  have h3: "Vector3 ((3/4 - 0.5) * 0.1) ((3/4 - 0.5) * 0.1) ((3/4 - 0.5) * 0.1) = Vector3 (1/40) (1/40) (1/40)"
    by simp
  have c1: "vlength (fst (calculateGravityForce (\<lambda>_. 3/4) exampleEngine ?b1 ?b2 0)) = 0.5"
    using T h1 by blast
  have c2: "vlength (normalizeV (Vector3 10 0 0)) = 1"
    using T h2 d by simp
  have c3: "vlength (normalizeV (Vector3 (1/40) (1/40) (1/40))) = 1"
    using T h3 by simp
  have c4: "calculateGravityForce (\<lambda>_. 3/4) exampleEngine ?b1 ?b2 0 = (Vector3 (1/2) 0 0, 0)"
    using T h2 d
    by (simp add: exampleEngine_def bodyAt_def lengthSq_def vlength_def power2_eq_square
      normalizeV_def normalizeDivisor_def divideScalar_def multiplyScalar_def)
  show ?thesis using h1 c1 c2 c3 c4 by blast
qed

text \<open>
  Claim C10. In the tree's force query, a node whose centre of mass is closer than 0.001
  to the query body adds nothing at all, whatever the node is (a leaf or the root of a
  large subtree). The tree evaluator draws no random number: a leaf holding another body
  at distance 0.001 or more adds the force along the direction to it with the clamped
  magnitude, also where the direct evaluator would jitter. A node that holds a single body
  other than the query body is never descended into: its children do not matter.
\<close>

theorem barnes_hut_near_node:
  "(vlength (subVectors (centerOfMass node) (position (H b))) < 0.001 \<longrightarrow>
      calculateForceRecursive H th b node g force = force)
   \<and> (\<not> isEmpty node \<and> body node = Some other \<and> other \<noteq> b
        \<and> \<not> vlength (subVectors (centerOfMass node) (position (H b))) < 0.001 \<longrightarrow>
      calculateForceRecursive H th b node g force =
        addV force
          (multiplyScalar (normalizeV (subVectors (centerOfMass node) (position (H b))))
             (g * mass (H b) * totalMass node
                / max (lengthSq (subVectors (centerOfMass node) (position (H b)))) (0.1 * 0.1))))
   \<and> (body node = Some other \<and> other \<noteq> b \<longrightarrow>
      calculateForceRecursive H th b node g force =
        calculateForceRecursive H th b
          (BHNode (centerOfMass node) (totalMass node) (body node) chs (bounds node) (isEmpty node))
          g force)"
  by (simp add: calculateForceRecursive_sel getSize_def)

theorem barnes_hut_near_node_witness:
  "vlength (subVectors (centerOfMass coincidentLeaf) (position (coincidentHeap 0))) < 0.001
   \<and> calculateForceRecursive coincidentHeap (1/2) 0 coincidentLeaf 1 (Vector3 1 2 3) = Vector3 1 2 3
   \<and> \<not> isEmpty nearLeaf \<and> body nearLeaf = Some 1 \<and> (1::nat) \<noteq> 0
   \<and> \<not> vlength (subVectors (centerOfMass nearLeaf) (position (coincidentHeap 0))) < 0.001
   \<and> calculateForceRecursive coincidentHeap (1/2) 0 nearLeaf 1 (Vector3 0 0 0) = Vector3 100 0 0
   \<and> calculateForceRecursive coincidentHeap (1/2) 0 nearLeaf 1 (Vector3 0 0 0) =
       calculateForceRecursive coincidentHeap (1/2) 0
         (BHNode (centerOfMass nearLeaf) (totalMass nearLeaf) (body nearLeaf) [] (bounds nearLeaf)
            (isEmpty nearLeaf)) 1 (Vector3 0 0 0)"
proof -
  have d0: "subVectors (centerOfMass coincidentLeaf) (position (coincidentHeap 0)) = Vector3 0 0 0"
    by (simp add: coincidentLeaf_def coincidentHeap_def bodyAt_def subVectors_def)
  have d1: "subVectors (centerOfMass nearLeaf) (position (coincidentHeap 0)) = Vector3 (1/100) 0 0"
    by (simp add: nearLeaf_def coincidentHeap_def bodyAt_def subVectors_def)
  have h0: "vlength (subVectors (centerOfMass coincidentLeaf) (position (coincidentHeap 0))) < 0.001"
    by (simp add: d0 vlength_axis_x)
  have h1: "\<not> isEmpty nearLeaf \<and> body nearLeaf = Some 1 \<and> (1::nat) \<noteq> 0
      \<and> \<not> vlength (subVectors (centerOfMass nearLeaf) (position (coincidentHeap 0))) < 0.001"
    by (simp add: d1 vlength_axis_x) (simp add: nearLeaf_def)
  have h2: "body nearLeaf = Some 1 \<and> (1::nat) \<noteq> 0" using h1 by simp
  note T0 = barnes_hut_near_node [of coincidentLeaf coincidentHeap 0 "1/2" 1 "Vector3 1 2 3"]
  note T1 = barnes_hut_near_node [of nearLeaf coincidentHeap 0 "1/2" 1 "Vector3 0 0 0" 1 "[]"]
  have c0: "calculateForceRecursive coincidentHeap (1/2) 0 coincidentLeaf 1 (Vector3 1 2 3) = Vector3 1 2 3"
    using T0 h0 by blast
  have c1: "calculateForceRecursive coincidentHeap (1/2) 0 nearLeaf 1 (Vector3 0 0 0) =
      addV (Vector3 0 0 0)
          (multiplyScalar (normalizeV (subVectors (centerOfMass nearLeaf) (position (coincidentHeap 0))))
             (1 * mass (coincidentHeap 0) * totalMass nearLeaf
                / max (lengthSq (subVectors (centerOfMass nearLeaf) (position (coincidentHeap 0)))) (0.1 * 0.1)))"
    using T1 h1 by blast
  have e1: "addV (Vector3 0 0 0)
          (multiplyScalar (normalizeV (subVectors (centerOfMass nearLeaf) (position (coincidentHeap 0))))
             (1 * mass (coincidentHeap 0) * totalMass nearLeaf
                / max (lengthSq (subVectors (centerOfMass nearLeaf) (position (coincidentHeap 0)))) (0.1 * 0.1)))
        = Vector3 100 0 0"
    unfolding d1
    by (simp add: nearLeaf_def coincidentHeap_def bodyAt_def addV_def multiplyScalar_def
        normalizeV_def normalizeDivisor_def divideScalar_def vlength_axis_x lengthSq_def)
  have c2: "calculateForceRecursive coincidentHeap (1/2) 0 nearLeaf 1 (Vector3 0 0 0) =
       calculateForceRecursive coincidentHeap (1/2) 0
         (BHNode (centerOfMass nearLeaf) (totalMass nearLeaf) (body nearLeaf) [] (bounds nearLeaf)
            (isEmpty nearLeaf)) 1 (Vector3 0 0 0)"
    using T1 h2 by blast
  show ?thesis using h0 h1 c0 c1 e1 c2 by simp
qed

definition farEngine :: PhysicsEngine where
  "farEngine = \<lparr>G = 1, bodies = [], useBarnesHut = True, barnesHutTheta = 0.5\<rparr>"

text \<open>
  Claim C6, as stated: a node that is a leaf, or far enough (\<open>s / d < theta\<close>), is treated
  as one point mass with the force formula and the clamp of the direct evaluator,
  including the direct evaluator's handling of positions that are effectively coincident.
  It fails for a leaf at the position of the query body: the tree adds nothing, the direct
  evaluator returns the jitter force.
\<close>

theorem point_mass_coincident_counterexample:
  "\<not> isEmpty coincidentLeaf \<and> body coincidentLeaf \<noteq> None \<and>
   calculateForceRecursive coincidentHeap (1/2) 0 coincidentLeaf (G exampleEngine) (Vector3 0 0 0)
     \<noteq> addV (Vector3 0 0 0)
         (fst (calculateGravityForce jitterDraws exampleEngine (coincidentHeap 0)
                 (pointMass coincidentLeaf) 0))"
  by (simp add: coincidentLeaf_def coincidentHeap_def bodyAt_def exampleEngine_def pointMass_def
      calculateGravityForce_def jitterDraws_def subVectors_def lengthSq_def vlength_def
      normalizeV_def normalizeDivisor_def divideScalar_def multiplyScalar_def addV_def)


text \<open>
  Claim C6, amended. A node that is not empty and is not the leaf of the query body
  itself, at distance \<open>d \<ge> 0.001\<close>, that is a leaf or has \<open>s / d < theta\<close>, adds
  \<open>normalize(com - p) * G * m * M / max(d\<^sup>2, 0.1\<^sup>2)\<close> and is not descended into; when
  moreover \<open>d\<^sup>2 \<ge> 0.001\<close> this is the force the direct evaluator computes between the
  body and the node taken as one point mass.
\<close>

theorem point_mass_approximation:
  "\<not> isEmpty node \<and> body node \<noteq> Some b
   \<and> \<not> vlength (subVectors (centerOfMass node) (position (H b))) < 0.001
   \<and> (body node \<noteq> None
        \<or> getSize node / vlength (subVectors (centerOfMass node) (position (H b))) < th) \<longrightarrow>
     calculateForceRecursive H th b node g force =
       addV force
         (multiplyScalar (normalizeV (subVectors (centerOfMass node) (position (H b))))
            (g * mass (H b) * totalMass node
               / max (lengthSq (subVectors (centerOfMass node) (position (H b)))) (0.1\<^sup>2)))
     \<and> (G E = g \<and> \<not> lengthSq (subVectors (centerOfMass node) (position (H b))) < 0.001 \<longrightarrow>
          calculateForceRecursive H th b node g force =
            addV force (fst (calculateGravityForce rand E (H b) (pointMass node) k)))"
  by (auto simp add: calculateForceRecursive_sel calculateGravityForce_def pointMass_def Let_def
      power2_eq_square mult.assoc)

theorem point_mass_approximation_witness:
  "\<not> isEmpty farLeaf \<and> body farLeaf \<noteq> Some 0
   \<and> \<not> vlength (subVectors (centerOfMass farLeaf) (position (bodyAt 10 (Vector3 0 0 0)))) < 0.001
   \<and> body farLeaf \<noteq> None
   \<and> G exampleEngine = 1
   \<and> \<not> lengthSq (subVectors (centerOfMass farLeaf) (position (bodyAt 10 (Vector3 0 0 0)))) < 0.001
   \<and> calculateForceRecursive (\<lambda>r. bodyAt 10 (Vector3 0 0 0)) (1/2) 0 farLeaf 1 (Vector3 0 0 0)
        = Vector3 (1/2) 0 0
   \<and> calculateForceRecursive (\<lambda>r. bodyAt 10 (Vector3 0 0 0)) (1/2) 0 farLeaf 1 (Vector3 0 0 0)
        = addV (Vector3 0 0 0)
            (fst (calculateGravityForce jitterDraws exampleEngine (bodyAt 10 (Vector3 0 0 0))
                    (pointMass farLeaf) 0))"
proof -
  let ?H = "\<lambda>r::nat. bodyAt 10 (Vector3 0 0 0)"
  have d: "subVectors (centerOfMass farLeaf) (position (bodyAt 10 (Vector3 0 0 0))) = Vector3 10 0 0"
    by (simp add: farLeaf_def bodyAt_def subVectors_def)
  have h: "\<not> isEmpty farLeaf \<and> body farLeaf \<noteq> Some 0
      \<and> \<not> vlength (subVectors (centerOfMass farLeaf) (position (?H 0))) < 0.001
      \<and> (body farLeaf \<noteq> None
          \<or> getSize farLeaf / vlength (subVectors (centerOfMass farLeaf) (position (?H 0))) < 1/2)"
    by (simp add: d vlength_axis_x) (simp add: farLeaf_def)
  have g: "G exampleEngine = 1
      \<and> \<not> lengthSq (subVectors (centerOfMass farLeaf) (position (?H 0))) < 0.001"
    by (simp add: d lengthSq_def) (simp add: exampleEngine_def)
  note T = point_mass_approximation [of farLeaf 0 ?H "1/2" 1 "Vector3 0 0 0" exampleEngine
      jitterDraws 0]
  have c1: "calculateForceRecursive ?H (1/2) 0 farLeaf 1 (Vector3 0 0 0) =
       addV (Vector3 0 0 0)
         (multiplyScalar (normalizeV (subVectors (centerOfMass farLeaf) (position (?H 0))))
            (1 * mass (?H 0) * totalMass farLeaf
               / max (lengthSq (subVectors (centerOfMass farLeaf) (position (?H 0)))) (0.1\<^sup>2)))"
    using T h by blast
  have c2: "calculateForceRecursive ?H (1/2) 0 farLeaf 1 (Vector3 0 0 0) =
      addV (Vector3 0 0 0) (fst (calculateGravityForce jitterDraws exampleEngine (?H 0)
                    (pointMass farLeaf) 0))"
    using T h g by blast
  have e1: "addV (Vector3 0 0 0)
         (multiplyScalar (normalizeV (subVectors (centerOfMass farLeaf) (position (?H 0))))
            (1 * mass (?H 0) * totalMass farLeaf
               / max (lengthSq (subVectors (centerOfMass farLeaf) (position (?H 0)))) (0.1\<^sup>2)))
        = Vector3 (1/2) 0 0"
    unfolding d
    by (simp add: farLeaf_def bodyAt_def addV_def multiplyScalar_def power2_eq_square
        normalizeV_def normalizeDivisor_def divideScalar_def vlength_axis_x lengthSq_def)
  show ?thesis using h g c1 c2 e1 by (simp add: farLeaf_def)
qed



text \<open>
  Claim C9. \<open>getTotalEnergy\<close> returns the kinetic energy, the sum of
  \<open>0.5 * m\<^sub>i * |v\<^sub>i|\<^sup>2\<close> over the registry, minus the sum over the pairs \<open>i < j\<close> of
  \<open>G * m\<^sub>i * m\<^sub>j / max(dist(i, j), 0.1)\<close>, and leaves every body as it was.
\<close>

theorem total_energy:
  "getTotalEnergy E H =
     ((\<Sum>b\<leftarrow>bodies E. 0.5 * mass (H b) * (vlength (velocity (H b)))\<^sup>2)
      + - (\<Sum>i<length (bodies E). \<Sum>j = i + 1 ..< length (bodies E).
             G E * mass (H (bodies E ! i)) * mass (H (bodies E ! j))
               / max (distanceTo (position (H (bodies E ! i))) (position (H (bodies E ! j)))) 0.1),
      H)"
  by (simp add: getTotalEnergy_def Let_def fold_minus_sum fold_plus_sum_list lengthSq_vlength
      atLeast0LessThan)

theorem total_energy_witness:
  "getTotalEnergy (exampleEngine\<lparr>bodies := [0, 1]\<rparr>) energyHeap = (5/2, energyHeap)"
  using total_energy [of "exampleEngine\<lparr>bodies := [0, 1]\<rparr>" energyHeap]
  by (simp add: exampleEngine_def energyHeap_def vlength_axis_x vlength_def
      distanceTo_def distanceToSquared_def lessThan_Suc atLeastLessThanSuc)



text \<open>
  Claim C3. When \<open>update\<close> returns, with a registry that lists every body once: the
  map of forces is what \<open>computeForces\<close> gives on the heap as it was before the step,
  each entry being the result of the tree evaluator or of the direct evaluator on that
  heap;
  every body of the registry that is not static has its velocity increased by
  \<open>(force / mass) * dt\<close> and then its position increased by the new velocity times
  \<open>dt\<close>; every other body is unchanged.
\<close>

theorem symplectic_euler_step:
  "update fuel rand E dt (H, k) = Inr (H', k') \<and> distinct (bodies E) \<longrightarrow>
     (\<exists>forces. computeForces fuel rand E H k = Inr (forces, k')
        \<and> (\<forall>b. if b \<in> set (bodies E) \<and> \<not> isStatic (H b)
               then (\<exists>f. forces b = Some f
                      \<and> velocity (H' b) =
                          addV (velocity (H b)) (multiplyScalar (divideScalar f (mass (H b))) dt)
                      \<and> position (H' b) =
                          addV (position (H b)) (multiplyScalar (velocity (H' b)) dt)
                      \<and> mass (H' b) = mass (H b) \<and> isStatic (H' b) = isStatic (H b))
               else H' b = H b)
        \<and> (\<forall>b f. forces b = Some f \<longrightarrow>
             (if useBarnesHut E \<and> 2 < length (bodies E)
              then \<exists>t. newBarnesHutTree fuel H (bodies E) (calculateBounds H (bodies E) 10)
                          (barnesHutTheta E) = Some t \<and> f = calculateForce H t b (G E)
              else \<exists>kb. f = fst (calculateTotalForce rand E H b kb))))"
proof
  assume a: "update fuel rand E dt (H, k) = Inr (H', k') \<and> distinct (bodies E)"
  then obtain forces H1 where cf: "computeForces fuel rand E H k = Inr (forces, k')"
    and vl: "velocityLoop forces dt (bodies E) H = Inr H1"
    and pl: "H' = positionLoop dt (bodies E) H1"
    by (auto simp: update_def split: sum.splits prod.splits)
  from a have d: "distinct (bodies E)" by simp
  have "if b \<in> set (bodies E) \<and> \<not> isStatic (H b)
               then (\<exists>f. forces b = Some f
                      \<and> velocity (H' b) =
                          addV (velocity (H b)) (multiplyScalar (divideScalar f (mass (H b))) dt)
                      \<and> position (H' b) =
                          addV (position (H b)) (multiplyScalar (velocity (H' b)) dt)
                      \<and> mass (H' b) = mass (H b) \<and> isStatic (H' b) = isStatic (H b))
               else H' b = H b" for b
  proof (cases "b \<in> set (bodies E)")
    case False
    then show ?thesis using velocityLoop_other[OF vl False] positionLoop_other[OF False, of dt H1] pl
      by simp
  next
    case bin: True
    show ?thesis
    proof (cases "isStatic (H b)")
      case True
      then show ?thesis
        using velocityLoop_static[OF vl True] positionLoop_static[of H1 b dt "bodies E"] pl by simp
    next
      case False
      from velocityLoop_effect[OF vl d bin False] obtain f where f: "forces b = Some f"
        and h1: "H1 b = (H b)\<lparr>velocity := addV (velocity (H b))
                 (multiplyScalar (divideScalar f (mass (H b))) dt)\<rparr>" by blast
      then have ns: "\<not> isStatic (H1 b)" using False by simp
      from positionLoop_effect[of "bodies E" b H1 dt, OF d bin ns] pl h1 f False bin
      show ?thesis by simp
    qed
  qed
  with cf show "\<exists>forces. computeForces fuel rand E H k = Inr (forces, k')
        \<and> (\<forall>b. if b \<in> set (bodies E) \<and> \<not> isStatic (H b)
               then (\<exists>f. forces b = Some f
                      \<and> velocity (H' b) =
                          addV (velocity (H b)) (multiplyScalar (divideScalar f (mass (H b))) dt)
                      \<and> position (H' b) =
                          addV (position (H b)) (multiplyScalar (velocity (H' b)) dt)
                      \<and> mass (H' b) = mass (H b) \<and> isStatic (H' b) = isStatic (H b))
               else H' b = H b)
        \<and> (\<forall>b f. forces b = Some f \<longrightarrow>
             (if useBarnesHut E \<and> 2 < length (bodies E)
              then \<exists>t. newBarnesHutTree fuel H (bodies E) (calculateBounds H (bodies E) 10)
                          (barnesHutTheta E) = Some t \<and> f = calculateForce H t b (G E)
              else \<exists>kb. f = fst (calculateTotalForce rand E H b kb)))"
    using computeForces_values[OF cf] by blast
qed

theorem symplectic_euler_step_witness:
  "update 0 jitterDraws starPlanetEngine (1/10) (starPlanetHeap, 0) = Inr (starPlanetAfter, 0)
   \<and> distinct (bodies starPlanetEngine)
   \<and> velocity (starPlanetAfter 1) =
        addV (velocity (starPlanetHeap 1))
          (multiplyScalar (divideScalar (Vector3 (-1) 0 0) (mass (starPlanetHeap 1))) (1/10))
   \<and> position (starPlanetAfter 1) =
        addV (position (starPlanetHeap 1)) (multiplyScalar (velocity (starPlanetAfter 1)) (1/10))
   \<and> starPlanetAfter 0 = starPlanetHeap 0"
proof -
  have h: "update 0 jitterDraws starPlanetEngine (1/10) (starPlanetHeap, 0) = Inr (starPlanetAfter, 0)
      \<and> distinct (bodies starPlanetEngine)"
    by (simp add: starPlanet_update) (simp add: starPlanetEngine_def)
  from symplectic_euler_step [of 0 jitterDraws starPlanetEngine "1/10" starPlanetHeap 0
      starPlanetAfter 0] h
  obtain forces where cf: "computeForces 0 jitterDraws starPlanetEngine starPlanetHeap 0 = Inr (forces, 0)"
    and eff: "\<And>b. if b \<in> set (bodies starPlanetEngine) \<and> \<not> isStatic (starPlanetHeap b)
               then (\<exists>f. forces b = Some f
                      \<and> velocity (starPlanetAfter b) =
                          addV (velocity (starPlanetHeap b))
                            (multiplyScalar (divideScalar f (mass (starPlanetHeap b))) (1/10))
                      \<and> position (starPlanetAfter b) =
                          addV (position (starPlanetHeap b))
                            (multiplyScalar (velocity (starPlanetAfter b)) (1/10))
                      \<and> mass (starPlanetAfter b) = mass (starPlanetHeap b)
                      \<and> isStatic (starPlanetAfter b) = isStatic (starPlanetHeap b))
               else starPlanetAfter b = starPlanetHeap b"
    by blast
  from cf have f: "forces = [0 \<mapsto> Vector3 1 0 0, 1 \<mapsto> Vector3 (-1) 0 0]"
    by (simp add: starPlanet_forces)
  have m1: "1 \<in> set (bodies starPlanetEngine) \<and> \<not> isStatic (starPlanetHeap 1)"
    by (simp add: starPlanetEngine_def starPlanetHeap_def)
  have m0: "\<not> (0 \<in> set (bodies starPlanetEngine) \<and> \<not> isStatic (starPlanetHeap 0))"
    by (simp add: starPlanetHeap_def)
  from eff[of 1] m1 f have c1: "velocity (starPlanetAfter 1) =
        addV (velocity (starPlanetHeap 1))
          (multiplyScalar (divideScalar (Vector3 (-1) 0 0) (mass (starPlanetHeap 1))) (1/10))
      \<and> position (starPlanetAfter 1) =
        addV (position (starPlanetHeap 1)) (multiplyScalar (velocity (starPlanetAfter 1)) (1/10))"
    by auto
  from eff[of 0] m0 have c0: "starPlanetAfter 0 = starPlanetHeap 0" by simp
  show ?thesis using h c1 c0 by blast
qed

text \<open>
  Claim C1 says that the insertion into the octree terminates for every input. It does
  not: when the first two bodies are at the same position, within the root's bounds, the
  second insertion fails for every depth of recursion allowed, so the construction of the
  tree never returns; and \<open>update\<close>, which builds the tree when \<open>useBarnesHut\<close> is set
  and there are more than two bodies, ends in the stack overflow.
\<close>

theorem coincident_bodies_exhaust_stack:
  "(position (H a) = position (H b) \<and> contains (newBHNode bnds) (position (H a)) \<longrightarrow>
      newBarnesHutTree fuel H (a # b # rest) bnds th = None)
   \<and> (useBarnesHut E \<and> bodies E = a # b # c # rest \<and> position (H a) = position (H b) \<longrightarrow>
      update fuel rand E dt (H, k) = Inl RangeError)"
proof -
  have A: "newBarnesHutTree fuel H (a # b # rest) bnds th = None"
    if "position (H a) = position (H b)" "contains (newBHNode bnds) (position (H a))"
    for rest bnds th
    using buildInserts_coincident[OF that] by (simp add: newBarnesHutTree_def buildTree_def)
  have B: "update fuel rand E dt (H, k) = Inl RangeError"
    if h: "useBarnesHut E \<and> bodies E = a # b # c # rest \<and> position (H a) = position (H b)"
  proof -
    have "contains (newBHNode (calculateBounds H (bodies E) 10)) (position (H a))"
      using h by (intro calculateBounds_contains) simp_all
    from A[OF _ this] h show ?thesis
      by (simp add: update_def computeForces_def)
  qed
  show ?thesis using A B by blast
qed

theorem coincident_bodies_exhaust_stack_witness:
  "position (coincidentHeap 0) = position (coincidentHeap 1)
   \<and> contains (newBHNode testBox) (position (coincidentHeap 0))
   \<and> newBarnesHutTree 1000 coincidentHeap [0, 1] testBox (1/2) = None
   \<and> useBarnesHut starPlanetEngine
   \<and> bodies (starPlanetEngine\<lparr>bodies := [0, 1, 2]\<rparr>) = [0, 1, 2]
   \<and> update 1000 jitterDraws (starPlanetEngine\<lparr>bodies := [0, 1, 2]\<rparr>) (1/10) (coincidentHeap, 0)
        = Inl RangeError"
proof -
  let ?E = "starPlanetEngine\<lparr>bodies := [0, 1, 2]\<rparr>"
  note T = coincident_bodies_exhaust_stack [of coincidentHeap 0 1 testBox 1000 "[]" "1/2"
      ?E 2 jitterDraws "1/10" 0]
  have h1: "position (coincidentHeap 0) = position (coincidentHeap 1)
      \<and> contains (newBHNode testBox) (position (coincidentHeap 0))"
    by (simp add: coincidentHeap_def bodyAt_def contains_def testBox_def)
  have h2: "useBarnesHut ?E \<and> bodies ?E = [0, 1, 2]
      \<and> position (coincidentHeap 0) = position (coincidentHeap 1)"
    by (simp add: starPlanetEngine_def coincidentHeap_def)
  from T h1 have c1: "newBarnesHutTree 1000 coincidentHeap [0, 1] testBox (1/2) = None" by blast
  from T h2 have c2: "update 1000 jitterDraws ?E (1/10) (coincidentHeap, 0) = Inl RangeError"
    by blast
  show ?thesis using h1 h2 c1 c2 by (simp add: starPlanetEngine_def)
qed

text \<open>
  Claim C4. When the construction of the tree returns, for bodies of positive mass: at
  every node the bodies below it lie within its bounds, a leaf carries the mass and the
  position of its body, and an internal node carries the sum of the masses below it and
  their mass-weighted average position. The bodies of the tree are the bodies of the list
  that lie within the root's bounds, each as often as the list has it.
\<close>

theorem octree_aggregates:
  "buildTree fuel H bods (newBHNode bnds) = Some tree \<and> (\<forall>b \<in> set bods. 0 < mass (H b)) \<longrightarrow>
     aggregated H tree
     \<and> mset (subtreeBodies tree) =
         mset (filter (\<lambda>b. contains (newBHNode bnds) (position (H b))) bods)"
proof
  assume a: "buildTree fuel H bods (newBHNode bnds) = Some tree \<and> (\<forall>b \<in> set bods. 0 < mass (H b))"
  then obtain rt where bi: "buildInserts fuel H bods (newBHNode bnds) = Some rt"
    and t: "tree = updateCenterOfMass H rt"
    by (auto simp: buildTree_def split: option.splits)
  note w = buildInserts_wellFormed[OF bi wellFormed_newBHNode]
  from w have "set (subtreeBodies rt) \<subseteq> set bods"
    by (metis (no_types, lifting) filter_is_subset mset_eq_setD add.left_neutral mset.simps(1)
        subtreeBodies_newBHNode)
  with a have "\<forall>b \<in> set (subtreeBodies rt). 0 < mass (H b)" by blast
  with w updateCenterOfMass_aggregated(1)[of H rt] have "aggregated H tree" by (simp add: t)
  moreover from a have "buildTree fuel H bods (newBHNode bnds) = Some tree" by simp
  ultimately show "aggregated H tree
     \<and> mset (subtreeBodies tree) =
         mset (filter (\<lambda>b. contains (newBHNode bnds) (position (H b))) bods)"
    using buildTree_wellFormed(3) by blast
qed

theorem octree_aggregates_witness:
  "buildTree 3 energyHeap [0, 1] (newBHNode testBox) = Some exampleTree
   \<and> 0 < mass (energyHeap 0) \<and> 0 < mass (energyHeap 1)
   \<and> aggregated energyHeap exampleTree
   \<and> subtreeBodies exampleTree = [0, 1]
   \<and> totalMass exampleTree = 15 \<and> centerOfMass exampleTree = Vector3 (10/3) 0 0"
proof -
  have m: "0 < mass (energyHeap 0) \<and> 0 < mass (energyHeap 1)" by (simp add: energyHeap_def)
  then have p: "\<forall>b \<in> set [0, 1]. 0 < mass (energyHeap b)" by simp
  from octree_aggregates [of 3 energyHeap "[0, 1]" testBox exampleTree] exampleTree_built p
  have "aggregated energyHeap exampleTree" by blast
  moreover have "subtreeBodies exampleTree = [0, 1]"
    by (simp add: exampleTree_def exampleInner_def exampleLeaf0_def exampleLeaf1_def)
  moreover have "totalMass exampleTree = 15 \<and> centerOfMass exampleTree = Vector3 (10/3) 0 0"
    by (simp add: exampleTree_def)
  ultimately show ?thesis using exampleTree_built m by blast
qed





end
